theory Spec2Isabelle
  imports Complex_Main
begin

section \<open>JavaScript values used by the engine\<close>

text \<open>
  The engine of \<open>ai.js\<close> keeps its tables in plain objects keyed by move names and in a
  \<open>Map\<close> keyed by joined move names. Moves are JavaScript strings, so they are modelled
  as \<open>string\<close>; a value that may be \<open>null\<close> or \<open>undefined\<close> is a \<open>string option\<close>.

  An object is an association list in property-creation order, which is the order
  \<open>Object.entries\<close> and \<open>Object.values\<close> enumerate. Two conventions of JavaScript objects
  are outside this model: keys that name a member of \<open>Object.prototype\<close> (such as
  \<open>constructor\<close> or \<open>__proto__\<close>), which are never absent on lookup, and keys that are
  canonical array indices (such as \<open>7\<close>), which are enumerated ahead of the other keys.
  A \<open>Map\<close> has neither convention and is modelled exactly. Every statement below about
  a key other than the three move names excludes the names of \<open>Object.prototype\<close> and
  speaks of what a lookup reads, never of the position of the key.
\<close>

type_synonym 'v obj = "(string \<times> 'v) list"

definition obj_get :: "'v obj \<Rightarrow> string \<Rightarrow> 'v option" where
  "obj_get ob k = map_of ob k"

fun obj_set :: "'v obj \<Rightarrow> string \<Rightarrow> 'v \<Rightarrow> 'v obj" where
  "obj_set [] k v = [(k, v)]"
| "obj_set ((k', v') # ob) k v = (if k' = k then (k, v) # ob else (k', v') # obj_set ob k v)"

definition obj_values :: "'v obj \<Rightarrow> 'v list" where
  "obj_values ob = map snd ob"

text \<open>
  A counter held in a table is a non-negative integer, or \<open>NaN\<close> once \<open>++\<close> has been
  applied to a property that did not exist. Confidences and scores are JavaScript
  doubles; they are modelled by exact rationals, with \<open>NaN\<close> kept apart. A double that is
  not exact differs from the rational by its rounding: two scores that tie as rationals
  can differ in their last bit, a confidence next to a half can round to the other
  integer, and \<open>Math.floor(rand * 3)\<close> can be one higher for a \<open>rand\<close> just below a third
  or two thirds. The statements below conclude only what the rounding cannot change: the
  sign of a score or confidence, which table entries are written, and values that are
  exact as doubles.
\<close>

datatype count = CNaN | Cnt nat

datatype num = NaN | Num rat

text \<open>\<open>ob[k]++\<close>: a missing property reads \<open>undefined\<close>, whose increment is \<open>NaN\<close>.\<close>

definition incr :: "count obj \<Rightarrow> string \<Rightarrow> count obj" where
  "incr ob k =
     obj_set ob k (case obj_get ob k of None \<Rightarrow> CNaN | Some CNaN \<Rightarrow> CNaN | Some (Cnt n) \<Rightarrow> Cnt (n + 1))"

fun count_add :: "count \<Rightarrow> count \<Rightarrow> count" where
  "count_add (Cnt a) (Cnt b) = Cnt (a + b)"
| "count_add _ _ = CNaN"

text \<open>\<open>Object.values(ob).reduce((a, b) => a + b, 0)\<close>\<close>

definition sum_values :: "count obj \<Rightarrow> count" where
  "sum_values ob = foldl count_add (Cnt 0) (obj_values ob)"

text \<open>
  The scan shared by the three table predictors:
  \<open>for (const [move, count] of Object.entries(ob)) if (count > maxCount) {...}\<close>.
  A comparison with \<open>NaN\<close> is false.
\<close>

fun scan_max :: "count obj \<Rightarrow> nat \<times> string \<Rightarrow> nat \<times> string" where
  "scan_max [] acc = acc"
| "scan_max ((move, count) # ob) (maxCount, predictedMove) =
     (case count of
        CNaN \<Rightarrow> scan_max ob (maxCount, predictedMove)
      | Cnt c \<Rightarrow> if c > maxCount then scan_max ob (c, move) else scan_max ob (maxCount, predictedMove))"

text \<open>
  \<open>(maxCount / total) * 100\<close>. A zero \<open>total\<close> reaches this division only in the pattern
  predictor, where \<open>maxCount\<close> is then zero as well, and \<open>0 / 0\<close> is \<open>NaN\<close>.
\<close>

fun percent :: "nat \<Rightarrow> count \<Rightarrow> num" where
  "percent maxCount CNaN = NaN"
| "percent maxCount (Cnt t) =
     (if t = 0 then NaN else Num (rat_of_nat maxCount / rat_of_nat t * 100))"

fun num_add :: "num \<Rightarrow> num \<Rightarrow> num" where
  "num_add (Num a) (Num b) = Num (a + b)"
| "num_add _ _ = NaN"

fun num_mul :: "num \<Rightarrow> num \<Rightarrow> num" where
  "num_mul (Num a) (Num b) = Num (a * b)"
| "num_mul _ _ = NaN"

text \<open>\<open>Array.prototype.join\<close> on an array of strings.\<close>

fun join :: "string \<Rightarrow> string list \<Rightarrow> string" where
  "join sep [] = []"
| "join sep [x] = x"
| "join sep (x # y # ys) = x @ sep @ join sep (y # ys)"

text \<open>\<open>xs.slice(start)\<close> with one integer argument; a negative start counts from the end.\<close>

definition slice :: "'a list \<Rightarrow> int \<Rightarrow> 'a list" where
  "slice xs start =
     (let len = int (length xs);
          k = (if start < 0 then max (len + start) 0 else min start len)
      in drop (nat k) xs)"

text \<open>Reading an array element: out of range is \<open>undefined\<close>.\<close>

definition arr_get :: "'a list \<Rightarrow> int \<Rightarrow> 'a option" where
  "arr_get xs i = (if 0 \<le> i \<and> i < int (length xs) then Some (xs ! nat i) else None)"

text \<open>Truthiness of a value that is a string, \<open>null\<close> or \<open>undefined\<close>.\<close>

fun truthy :: "string option \<Rightarrow> bool" where
  "truthy None = False"
| "truthy (Some s) = (s \<noteq> [])"

datatype js_error = TypeError


section \<open>The engine state\<close>

record ai =
  history :: "string list"
  moveCounts :: "count obj"
  transitions :: "count obj obj"
  patterns :: "nat obj obj"
  counterAttempts :: nat
  totalMoves :: nat
  lastConfidence :: rat
  lastPrediction :: "string option"

text \<open>
  The values of the pattern table are written only by \<open>(count[newMove] || 0) + 1\<close>, so
  they are numbers, never \<open>NaN\<close>.
\<close>

definition new_ai :: ai where
  "new_ai =
     \<lparr> history = [],
       moveCounts = [(''rock'', Cnt 0), (''paper'', Cnt 0), (''scissors'', Cnt 0)],
       transitions =
         [(''rock'', [(''rock'', Cnt 0), (''paper'', Cnt 0), (''scissors'', Cnt 0)]),
          (''paper'', [(''rock'', Cnt 0), (''paper'', Cnt 0), (''scissors'', Cnt 0)]),
          (''scissors'', [(''rock'', Cnt 0), (''paper'', Cnt 0), (''scissors'', Cnt 0)])],
       patterns = [],
       counterAttempts = 0,
       totalMoves = 0,
       lastConfidence = 0,
       lastPrediction = None \<rparr>"

definition reset :: "ai \<Rightarrow> ai" where
  "reset s =
     s\<lparr> history := [],
        moveCounts := [(''rock'', Cnt 0), (''paper'', Cnt 0), (''scissors'', Cnt 0)],
        transitions :=
          [(''rock'', [(''rock'', Cnt 0), (''paper'', Cnt 0), (''scissors'', Cnt 0)]),
           (''paper'', [(''rock'', Cnt 0), (''paper'', Cnt 0), (''scissors'', Cnt 0)]),
           (''scissors'', [(''rock'', Cnt 0), (''paper'', Cnt 0), (''scissors'', Cnt 0)])],
        patterns := [],
        counterAttempts := 0,
        totalMoves := 0,
        lastConfidence := 0,
        lastPrediction := None \<rparr>"


section \<open>Learning\<close>

definition counters :: "string obj" where
  "counters = [(''rock'', ''paper''), (''paper'', ''scissors''), (''scissors'', ''rock'')]"

text \<open>
  \<open>counterMove(move)\<close> is \<open>counters[move]\<close>. An argument that is \<open>undefined\<close> is looked up
  under the key \<open>undefined\<close>, which \<open>counters\<close> does not have.
\<close>

definition counterMove :: "string option \<Rightarrow> string option" where
  "counterMove move =
     obj_get counters (case move of None \<Rightarrow> ''undefined'' | Some m \<Rightarrow> m)"

definition wouldCounter :: "string \<Rightarrow> string \<Rightarrow> bool" where
  "wouldCounter playerMove aiPrediction = (counterMove (Some aiPrediction) = Some playerMove)"

text \<open>One turn of the loop of \<open>updatePatterns\<close>, for the pattern length \<open>len\<close>.\<close>

definition updatePattern :: "string \<Rightarrow> ai \<Rightarrow> nat \<Rightarrow> ai" where
  "updatePattern newMove s len =
     (if length (history s) \<ge> len then
        let pattern = join ''-'' (slice (history s) (- int len));
            count = (case obj_get (patterns s) pattern of None \<Rightarrow> [] | Some c \<Rightarrow> c);
            count' = obj_set count newMove ((case obj_get count newMove of None \<Rightarrow> 0 | Some n \<Rightarrow> n) + 1)
        in s\<lparr>patterns := obj_set (patterns s) pattern count'\<rparr>
      else s)"

definition updatePatterns :: "ai \<Rightarrow> string \<Rightarrow> ai" where
  "updatePatterns s newMove = foldl (updatePattern newMove) s [2, 3, 4]"

text \<open>
  \<open>learn\<close> in its four blocks. The first, the frequency and transition counts, throws a
  \<open>TypeError\<close> when the most recent move has no row in the transition table; the
  frequency count and \<open>totalMoves\<close> have been written by then, so the error carries the
  state it leaves behind.
\<close>

definition countMove :: "ai \<Rightarrow> string \<Rightarrow> (js_error \<times> ai) + ai" where
  "countMove s playerMove =
     (let s1 = s\<lparr>moveCounts := incr (moveCounts s) playerMove\<rparr>;
          s2 = s1\<lparr>totalMoves := totalMoves s1 + 1\<rparr>
      in if length (history s2) > 0 then
           let lastMove = last (history s2) in
           case obj_get (transitions s2) lastMove of
             None \<Rightarrow> Inl (TypeError, s2)
           | Some row \<Rightarrow>
               Inr (s2\<lparr>transitions := obj_set (transitions s2) lastMove (incr row playerMove)\<rparr>)
         else Inr s2)"

text \<open>\<open>if (this.lastPrediction && this.wouldCounter(playerMove, this.lastPrediction))\<close>\<close>

definition countCounter :: "ai \<Rightarrow> string \<Rightarrow> ai" where
  "countCounter s playerMove =
     (if (case lastPrediction s of
            None \<Rightarrow> False
          | Some p \<Rightarrow> truthy (Some p) \<and> wouldCounter playerMove p)
      then s\<lparr>counterAttempts := counterAttempts s + 1\<rparr> else s)"

text \<open>\<open>push\<close>, then \<open>shift\<close> once the history is longer than 100.\<close>

definition pushHistory :: "ai \<Rightarrow> string \<Rightarrow> ai" where
  "pushHistory s playerMove =
     (let s1 = s\<lparr>history := history s @ [playerMove]\<rparr>
      in if length (history s1) > 100 then s1\<lparr>history := tl (history s1)\<rparr> else s1)"

definition learn :: "ai \<Rightarrow> string \<Rightarrow> (js_error \<times> ai) + ai" where
  "learn s playerMove =
     (case countMove s playerMove of
        Inl e \<Rightarrow> Inl e
      | Inr s1 \<Rightarrow>
          Inr (pushHistory (countCounter (updatePatterns s1 playerMove) playerMove) playerMove))"


section \<open>Prediction\<close>

record prediction =
  move :: "string option"
  confidence :: num

definition abstain :: prediction where
  "abstain = \<lparr> move = None, confidence = Num 0 \<rparr>"

definition predictByFrequency :: "ai \<Rightarrow> prediction" where
  "predictByFrequency s =
     (let total = totalMoves s in
      if total = 0 then abstain
      else
        let (maxCount, predictedMove) = scan_max (moveCounts s) (0, ''rock'')
        in \<lparr> move = Some predictedMove, confidence = percent maxCount (Cnt total) \<rparr>)"

text \<open>
  \<open>Object.values(nextMoves)\<close> throws a \<open>TypeError\<close> when the last move has no row in the
  transition table.
\<close>

definition predictByMarkov :: "ai \<Rightarrow> js_error + prediction" where
  "predictByMarkov s =
     (if length (history s) = 0 then Inr abstain
      else
        let lastMove = last (history s) in
        case obj_get (transitions s) lastMove of
          None \<Rightarrow> Inl TypeError
        | Some nextMoves \<Rightarrow>
            let total = sum_values nextMoves in
            if total = Cnt 0 then Inr abstain
            else
              let (maxCount, predictedMove) = scan_max nextMoves (0, ''rock'')
              in Inr \<lparr> move = Some predictedMove, confidence = percent maxCount total \<rparr>)"

text \<open>One turn of the loop of \<open>predictByPattern\<close>: \<open>None\<close> when the turn does not return.\<close>

definition matchPattern :: "ai \<Rightarrow> nat \<Rightarrow> prediction option" where
  "matchPattern s len =
     (if length (history s) \<ge> len then
        let currentPattern = join ''-'' (slice (history s) (- int len)) in
        case obj_get (patterns s) currentPattern of
          None \<Rightarrow> None
        | Some nextMoves \<Rightarrow>
            let counts = map (\<lambda>(m, c). (m, Cnt c)) nextMoves;
                total = sum_values counts;
                (maxCount, predictedMove) = scan_max counts (0, ''rock'')
            in Some \<lparr> move = Some predictedMove, confidence = percent maxCount total \<rparr>
      else None)"

fun first_match :: "ai \<Rightarrow> nat list \<Rightarrow> prediction" where
  "first_match s [] = abstain"
| "first_match s (len # lens) =
     (case matchPattern s len of Some p \<Rightarrow> p | None \<Rightarrow> first_match s lens)"

definition predictByPattern :: "ai \<Rightarrow> prediction" where
  "predictByPattern s =
     (if length (history s) < 2 then abstain else first_match s [4, 3, 2])"

text \<open>
  \<open>Math.random()\<close> is called at most once in a prediction; the value it returns is the
  argument \<open>rand\<close>.
\<close>

definition predictByMetaStrategy :: "ai \<Rightarrow> rat \<Rightarrow> prediction" where
  "predictByMetaStrategy s rand =
     (if totalMoves s < 10 then abstain
      else
        let counterRate = rat_of_nat (counterAttempts s) / rat_of_nat (totalMoves s) in
        if counterRate > 6 / 10 then
          let predictedMove =
                (if rand < 33 / 100 then ''rock'' else if rand < 66 / 100 then ''paper'' else ''scissors'')
          in \<lparr> move = Some predictedMove, confidence = Num 50 \<rparr>
        else abstain)"

definition moves :: "string list" where
  "moves = [''rock'', ''paper'', ''scissors'']"

definition randomMove :: "rat \<Rightarrow> string option" where
  "randomMove rand = arr_get moves \<lfloor>rand * rat_of_nat (length moves)\<rfloor>"

definition weights :: "rat obj" where
  "weights = [(''frequency'', 2 / 10), (''markov'', 4 / 10), (''pattern'', 3 / 10), (''meta'', 1 / 10)]"

text \<open>
  \<open>scores[prediction.move] += weights[method] * prediction.confidence\<close>, for a
  prediction whose move is truthy. A property that is missing reads \<open>undefined\<close>, and a
  sum or product with \<open>undefined\<close> is \<open>NaN\<close>.
\<close>

definition add_score :: "string \<times> prediction \<Rightarrow> num obj \<Rightarrow> num obj" where
  "add_score mp scores =
     (case mp of (method, prediction) \<Rightarrow>
        (case move prediction of
           None \<Rightarrow> scores
         | Some m \<Rightarrow>
             if truthy (Some m) then
               let w = (case obj_get weights method of None \<Rightarrow> NaN | Some x \<Rightarrow> Num x);
                   old = (case obj_get scores m of None \<Rightarrow> NaN | Some x \<Rightarrow> x)
               in obj_set scores m (num_add old (num_mul w (confidence prediction)))
             else scores))"

definition combine :: "(string \<times> prediction) list \<Rightarrow> num obj" where
  "combine predictions =
     fold add_score predictions [(''rock'', Num 0), (''paper'', Num 0), (''scissors'', Num 0)]"

text \<open>The scan for the highest score: \<open>if (score > bestScore) {...}\<close>.\<close>

fun best_score :: "num obj \<Rightarrow> string \<times> rat \<Rightarrow> string \<times> rat" where
  "best_score [] acc = acc"
| "best_score ((m, score) # scores) (bestMove, bestScore) =
     (case score of
        NaN \<Rightarrow> best_score scores (bestMove, bestScore)
      | Num x \<Rightarrow> if x > bestScore then best_score scores (m, x) else best_score scores (bestMove, bestScore))"

definition total_score :: "num obj \<Rightarrow> num" where
  "total_score scores = foldl num_add (Num 0) (obj_values scores)"

definition predictions_of :: "ai \<Rightarrow> rat \<Rightarrow> js_error + (string \<times> prediction) list" where
  "predictions_of s rand =
     (case predictByMarkov s of
        Inl e \<Rightarrow> Inl e
      | Inr markov \<Rightarrow>
          Inr [(''frequency'', predictByFrequency s),
               (''markov'', markov),
               (''pattern'', predictByPattern s),
               (''meta'', predictByMetaStrategy s rand)])"

definition predict :: "ai \<Rightarrow> rat \<Rightarrow> (js_error \<times> ai) + (string option \<times> ai)" where
  "predict s rand =
     (if totalMoves s < 5 then Inr (randomMove rand, s\<lparr>lastConfidence := 33\<rparr>)
      else
        case predictions_of s rand of
          Inl e \<Rightarrow> Inl (e, s)
        | Inr predictions \<Rightarrow>
            let scores = combine predictions;
                (bestMove, bestScore) = best_score scores (''rock'', 0);
                totalScore = total_score scores;
                conf = (case totalScore of
                          NaN \<Rightarrow> 33
                        | Num t \<Rightarrow> if t > 0 then min 100 (bestScore / t * 100) else 33)
            in Inr (Some bestMove, s\<lparr>lastConfidence := conf, lastPrediction := Some bestMove\<rparr>))"

definition getMove :: "ai \<Rightarrow> rat \<Rightarrow> (js_error \<times> ai) + (string option \<times> ai)" where
  "getMove s rand =
     (case predict s rand of
        Inl e \<Rightarrow> Inl e
      | Inr (prediction, s') \<Rightarrow> Inr (counterMove prediction, s'))"

text \<open>\<open>Math.round\<close> rounds a half towards positive infinity.\<close>

definition getConfidence :: "ai \<Rightarrow> int" where
  "getConfidence s = \<lfloor>lastConfidence s + 1 / 2\<rfloor>"


section \<open>Read accessors\<close>

text \<open>\<open>getRecentHistory(n = 10)\<close>: an omitted argument is \<open>None\<close>.\<close>

definition getRecentHistory :: "ai \<Rightarrow> int option \<Rightarrow> string list" where
  "getRecentHistory s arg = (let n = (case arg of None \<Rightarrow> 10 | Some n \<Rightarrow> n) in slice (history s) (- n))"

record summary =
  pattern :: string
  nextMoves :: "nat obj"
  total_obs :: nat

text \<open>
  \<open>getPatternsSummary()\<close> declares no parameter. \<open>Array.from(map.entries())\<close> lists the
  table in insertion order, \<open>sort\<close> is stable, and the comparator \<open>b.total - a.total\<close>
  orders by descending total: that is the insertion sort \<open>sort_key\<close> on the negated total.
\<close>

definition summarise :: "string \<times> nat obj \<Rightarrow> summary" where
  "summarise e = (case e of (p, nm) \<Rightarrow> \<lparr> pattern = p, nextMoves = nm, total_obs = foldl (+) 0 (obj_values nm) \<rparr>)"

definition getPatternsSummary :: "ai \<Rightarrow> summary list" where
  "getPatternsSummary s =
     take 5 (sort_key (\<lambda>e. - int (total_obs e)) (map summarise (patterns s)))"

text \<open>
  A call that passes arguments: the function declares no parameter and does not read
  \<open>arguments\<close>, so whatever is passed is ignored.
\<close>

definition getPatternsSummary_with :: "ai \<Rightarrow> int list \<Rightarrow> summary list" where
  "getPatternsSummary_with s args = getPatternsSummary s"


section \<open>Call sequences\<close>

text \<open>
  The state-changing calls of the engine. \<open>playRound\<close> of \<open>game.js\<close> asks for the
  engine's move and then teaches it the player's move; only the engine's part of a round
  is modelled.
\<close>

datatype call = Learn string | GetMove rat | Reset

fun step :: "ai \<Rightarrow> call \<Rightarrow> (js_error \<times> ai) + ai" where
  "step s (Learn playerMove) = learn s playerMove"
| "step s (GetMove rand) = (case getMove s rand of Inl e \<Rightarrow> Inl e | Inr (aiMove, s') \<Rightarrow> Inr s')"
| "step s Reset = Inr (reset s)"

fun run :: "ai \<Rightarrow> call list \<Rightarrow> (js_error \<times> ai) + ai" where
  "run s [] = Inr s"
| "run s (c # cs) = (case step s c of Inl e \<Rightarrow> Inl e | Inr s' \<Rightarrow> run s' cs)"

definition playRound :: "ai \<Rightarrow> rat \<times> string \<Rightarrow> (js_error \<times> ai) + ai" where
  "playRound s turn = (case turn of (rand, playerMove) \<Rightarrow> run s [GetMove rand, Learn playerMove])"

fun playRounds :: "ai \<Rightarrow> (rat \<times> string) list \<Rightarrow> (js_error \<times> ai) + ai" where
  "playRounds s [] = Inr s"
| "playRounds s (turn # turns) =
     (case playRound s turn of Inl e \<Rightarrow> Inl e | Inr s' \<Rightarrow> playRounds s' turns)"

text \<open>The state a fresh engine is in after the calls, also when one of them threw.\<close>

definition state_after :: "call list \<Rightarrow> ai" where
  "state_after cs = (case run new_ai cs of Inl (e, s) \<Rightarrow> s | Inr s \<Rightarrow> s)"


section \<open>Notions used in the statements\<close>

text \<open>A call is within the documented interface when a learned move is one of the three.\<close>

fun valid_call :: "call \<Rightarrow> bool" where
  "valid_call (Learn playerMove) = (playerMove \<in> set moves)"
| "valid_call (GetMove rand) = True"
| "valid_call Reset = True"

text \<open>
  The shape every table has as long as only the three moves are learned: a row holds
  the three keys in the constructor's order with numeric counts, the frequency counts add
  up to \<open>totalMoves\<close>, the history holds moves only and is empty only before the first
  move, and every pattern entry has a positive count.
\<close>

definition well_row :: "count obj \<Rightarrow> bool" where
  "well_row ob = (map fst ob = moves \<and> CNaN \<notin> set (map snd ob))"

definition inv_ai :: "ai \<Rightarrow> bool" where
  "inv_ai s =
     (well_row (moveCounts s) \<and>
      sum_values (moveCounts s) = Cnt (totalMoves s) \<and>
      map fst (transitions s) = moves \<and>
      list_all well_row (map snd (transitions s)) \<and>
      set (history s) \<subseteq> set moves \<and>
      (history s = [] \<longrightarrow> totalMoves s = 0) \<and>
      list_all (\<lambda>e. 0 < sum_list (map snd (snd e))) (patterns s))"

text \<open>
  Property names that every object inherits from \<open>Object.prototype\<close>; reading one of them
  from a table does not give \<open>undefined\<close>.
\<close>

definition object_prototype_keys :: "string list" where
  "object_prototype_keys =
     [''constructor'', ''hasOwnProperty'', ''isPrototypeOf'', ''propertyIsEnumerable'',
      ''toLocaleString'', ''toString'', ''valueOf'', ''__proto__'',
      ''__defineGetter__'', ''__defineSetter__'', ''__lookupGetter__'', ''__lookupSetter__'']"

text \<open>The count the pattern table holds for \<open>move\<close> after the pattern \<open>key\<close>; zero when absent.\<close>

definition pattern_count :: "nat obj obj \<Rightarrow> string \<Rightarrow> string \<Rightarrow> nat" where
  "pattern_count tab key m =
     (case obj_get tab key of
        None \<Rightarrow> 0
      | Some nm \<Rightarrow> (case obj_get nm m of None \<Rightarrow> 0 | Some n \<Rightarrow> n))"

text \<open>The keys \<open>updatePatterns\<close> writes: the last \<open>len\<close> moves, for each length the history covers.\<close>

definition pattern_keys :: "string list \<Rightarrow> string list" where
  "pattern_keys h = map (\<lambda>len. join ''-'' (slice h (- int len))) (filter (\<lambda>len. len \<le> length h) [2, 3, 4])"

text \<open>A score table holds a positive number for the move \<open>m\<close>.\<close>

definition positive_score :: "num obj \<Rightarrow> string \<Rightarrow> bool" where
  "positive_score scores m = (case obj_get scores m of Some (Num x) \<Rightarrow> 0 < x | _ \<Rightarrow> False)"


section \<open>Example states\<close>

text \<open>The engine after six \<open>rock\<close> moves have been learned.\<close>

definition six_rocks :: ai where
  "six_rocks =
     \<lparr> history = [''rock'', ''rock'', ''rock'', ''rock'', ''rock'', ''rock''],
       moveCounts = [(''rock'', Cnt 6), (''paper'', Cnt 0), (''scissors'', Cnt 0)],
       transitions =
         [(''rock'', [(''rock'', Cnt 5), (''paper'', Cnt 0), (''scissors'', Cnt 0)]),
          (''paper'', [(''rock'', Cnt 0), (''paper'', Cnt 0), (''scissors'', Cnt 0)]),
          (''scissors'', [(''rock'', Cnt 0), (''paper'', Cnt 0), (''scissors'', Cnt 0)])],
       patterns =
         [(''rock-rock'', [(''rock'', 4)]),
          (''rock-rock-rock'', [(''rock'', 3)]),
          (''rock-rock-rock-rock'', [(''rock'', 2)])],
       counterAttempts = 0,
       totalMoves = 6,
       lastConfidence = 0,
       lastPrediction = None \<rparr>"

text \<open>The engine after \<open>rock\<close> four times and then \<open>paper\<close>.\<close>

definition rocks_then_paper :: ai where
  "rocks_then_paper =
     \<lparr> history = [''rock'', ''rock'', ''rock'', ''rock'', ''paper''],
       moveCounts = [(''rock'', Cnt 4), (''paper'', Cnt 1), (''scissors'', Cnt 0)],
       transitions =
         [(''rock'', [(''rock'', Cnt 3), (''paper'', Cnt 1), (''scissors'', Cnt 0)]),
          (''paper'', [(''rock'', Cnt 0), (''paper'', Cnt 0), (''scissors'', Cnt 0)]),
          (''scissors'', [(''rock'', Cnt 0), (''paper'', Cnt 0), (''scissors'', Cnt 0)])],
       patterns =
         [(''rock-rock'', [(''rock'', 2), (''paper'', 1)]),
          (''rock-rock-rock'', [(''rock'', 1), (''paper'', 1)]),
          (''rock-rock-rock-rock'', [(''paper'', 1)])],
       counterAttempts = 0,
       totalMoves = 5,
       lastConfidence = 0,
       lastPrediction = None \<rparr>"


section \<open>Basic facts about objects and the blocks of \<open>learn\<close>\<close>

lemma obj_get_set: "obj_get (obj_set ob k v) k' = (if k' = k then Some v else obj_get ob k')"
  by (induction ob) (auto simp: obj_get_def)

lemma updatePattern_frame:
  "history (updatePattern m s len) = history s \<and> moveCounts (updatePattern m s len) = moveCounts s
   \<and> transitions (updatePattern m s len) = transitions s
   \<and> counterAttempts (updatePattern m s len) = counterAttempts s
   \<and> totalMoves (updatePattern m s len) = totalMoves s
   \<and> lastConfidence (updatePattern m s len) = lastConfidence s
   \<and> lastPrediction (updatePattern m s len) = lastPrediction s"
  by (simp add: updatePattern_def Let_def)

lemma updatePatterns_frame:
  "history (updatePatterns s m) = history s \<and> moveCounts (updatePatterns s m) = moveCounts s
   \<and> transitions (updatePatterns s m) = transitions s
   \<and> counterAttempts (updatePatterns s m) = counterAttempts s
   \<and> totalMoves (updatePatterns s m) = totalMoves s
   \<and> lastConfidence (updatePatterns s m) = lastConfidence s
   \<and> lastPrediction (updatePatterns s m) = lastPrediction s"
  by (simp add: updatePatterns_def updatePattern_frame)

lemma countMove_returns:
  assumes "history s = [] \<or> obj_get (transitions s) (last (history s)) \<noteq> None"
  shows "\<exists>s'. countMove s m = Inr s'"
  using assms by (auto simp add: countMove_def Let_def)

lemma countMove_frame:
  assumes "countMove s m = Inr s'"
  shows "history s' = history s" "patterns s' = patterns s" "counterAttempts s' = counterAttempts s"
    "totalMoves s' = totalMoves s + 1" "lastConfidence s' = lastConfidence s"
    "lastPrediction s' = lastPrediction s" "moveCounts s' = incr (moveCounts s) m"
  using assms by (auto simp add: countMove_def Let_def split: if_splits option.splits)

lemma countCounter_frame:
  "history (countCounter s m) = history s" "patterns (countCounter s m) = patterns s"
  "moveCounts (countCounter s m) = moveCounts s" "transitions (countCounter s m) = transitions s"
  "totalMoves (countCounter s m) = totalMoves s" "lastConfidence (countCounter s m) = lastConfidence s"
  "lastPrediction (countCounter s m) = lastPrediction s"
  by (simp_all add: countCounter_def)

lemma pushHistory_frame:
  "patterns (pushHistory s m) = patterns s" "counterAttempts (pushHistory s m) = counterAttempts s"
  "moveCounts (pushHistory s m) = moveCounts s" "transitions (pushHistory s m) = transitions s"
  "totalMoves (pushHistory s m) = totalMoves s" "lastConfidence (pushHistory s m) = lastConfidence s"
  "lastPrediction (pushHistory s m) = lastPrediction s"
  by (simp_all add: pushHistory_def Let_def)

lemma countCounter_counterAttempts:
  "counterAttempts (countCounter s m) =
     counterAttempts s + (if lastPrediction s \<noteq> None \<and> counterMove (lastPrediction s) = Some m then 1 else 0)"
proof -
  have cm: "counterMove (Some []) \<noteq> Some m"
    by (simp add: counterMove_def counters_def obj_get_def)
  show ?thesis
    using cm by (cases "lastPrediction s") (auto simp add: countCounter_def wouldCounter_def)
qed


lemma learn_effect:
  assumes "learn s m = Inr s'"
  shows "totalMoves s' = totalMoves s + 1" "lastPrediction s' = lastPrediction s"
    "lastConfidence s' = lastConfidence s" "moveCounts s' = incr (moveCounts s) m"
    "counterAttempts s' =
       counterAttempts s +
         (if lastPrediction s \<noteq> None \<and> counterMove (lastPrediction s) = Some m then 1 else 0)"
proof -
  from assms obtain s1 where s1: "countMove s m = Inr s1"
    and s': "s' = pushHistory (countCounter (updatePatterns s1 m) m) m"
    by (auto simp add: learn_def split: sum.splits)
  show "totalMoves s' = totalMoves s + 1" "lastPrediction s' = lastPrediction s"
    "lastConfidence s' = lastConfidence s" "moveCounts s' = incr (moveCounts s) m"
    unfolding s'
    by (simp_all only: pushHistory_frame countCounter_frame updatePatterns_frame countMove_frame [OF s1])
  show "counterAttempts s' =
       counterAttempts s +
         (if lastPrediction s \<noteq> None \<and> counterMove (lastPrediction s) = Some m then 1 else 0)"
    unfolding s'
    by (simp only: pushHistory_frame countCounter_counterAttempts updatePatterns_frame countMove_frame [OF s1])
qed


section \<open>Counter-attempt detection\<close>

text \<open>
  Claim C7. Whenever \<open>learn\<close> can read the transition row of the most recent move (the
  history is empty, or its last move has a row), \<open>learn s m\<close> returns, and
  \<open>counterAttempts\<close> grows by exactly one if a last prediction exists and \<open>m\<close> is the
  move that \<open>counterMove\<close> gives for it; for any other \<open>m\<close>, and when there is no last
  prediction, \<open>counterAttempts\<close> is unchanged.
\<close>

theorem learn_counterAttempts:
  assumes "history s = [] \<or> obj_get (transitions s) (last (history s)) \<noteq> None"
  shows "\<exists>s'. learn s m = Inr s' \<and>
           counterAttempts s' =
             counterAttempts s +
               (if lastPrediction s \<noteq> None \<and> counterMove (lastPrediction s) = Some m then 1 else 0)"
proof -
  from countMove_returns [OF assms] obtain s1 where s1: "countMove s m = Inr s1" by blast
  have "learn s m = Inr (pushHistory (countCounter (updatePatterns s1 m) m) m)"
    by (simp add: learn_def s1)
  moreover have "counterAttempts (pushHistory (countCounter (updatePatterns s1 m) m) m) =
     counterAttempts s + (if lastPrediction s \<noteq> None \<and> counterMove (lastPrediction s) = Some m then 1 else 0)"
    by (simp only: pushHistory_frame countCounter_counterAttempts updatePatterns_frame countMove_frame [OF s1])
  ultimately show ?thesis by blast
qed

text \<open>The last prediction is \<open>rock\<close> and the player plays \<open>paper\<close>: one more counter-attempt.\<close>

theorem learn_counterAttempts_witness:
  "history (new_ai\<lparr>lastPrediction := Some ''rock''\<rparr>) = [] \<and>
   (\<exists>s'. learn (new_ai\<lparr>lastPrediction := Some ''rock''\<rparr>) ''paper'' = Inr s' \<and> counterAttempts s' = 1)"
proof -
  have h: "history (new_ai\<lparr>lastPrediction := Some ''rock''\<rparr>) = []"
    by (simp add: new_ai_def)
  have c: "counterMove (Some ''rock'') = Some ''paper''"
    by (simp add: counterMove_def counters_def obj_get_def)
  from learn_counterAttempts [of "new_ai\<lparr>lastPrediction := Some ''rock''\<rparr>" "''paper''"] h c
  show ?thesis by (simp add: new_ai_def)
qed


section \<open>Reset\<close>

text \<open>
  Claim C9. For every engine state, resetting twice gives the same state as resetting
  once, and that state is the state of a freshly constructed engine in every field.
\<close>

theorem reset_idempotent_fresh: "reset (reset s) = reset s \<and> reset s = new_ai"
  by (simp add: reset_def new_ai_def)

theorem reset_idempotent_fresh_witness:
  "reset (reset (new_ai\<lparr>totalMoves := 3, lastPrediction := Some ''rock''\<rparr>)) =
     reset (new_ai\<lparr>totalMoves := 3, lastPrediction := Some ''rock''\<rparr>) \<and>
   reset (new_ai\<lparr>totalMoves := 3, lastPrediction := Some ''rock''\<rparr>) = new_ai"
  by (rule reset_idempotent_fresh)


section \<open>The tables while only the three moves are learned\<close>

lemma well_row_shape:
  assumes "well_row ob"
  shows "\<exists>a b c. ob = [(''rock'', Cnt a), (''paper'', Cnt b), (''scissors'', Cnt c)]"
proof -
  from assms have k: "map fst ob = [''rock'', ''paper'', ''scissors'']" and n: "CNaN \<notin> snd ` set ob"
    by (simp_all add: well_row_def moves_def)
  from k obtain x y z where ob: "ob = [(''rock'', x), (''paper'', y), (''scissors'', z)]"
    by (auto simp add: map_eq_Cons_conv)
  with n have "x \<noteq> CNaN" "y \<noteq> CNaN" "z \<noteq> CNaN" by auto
  then obtain a b c where "x = Cnt a" "y = Cnt b" "z = Cnt c"
    by (metis count.exhaust)
  with ob show ?thesis by blast
qed

lemma well_row_intro: "well_row [(''rock'', Cnt a), (''paper'', Cnt b), (''scissors'', Cnt c)]"
  by (simp add: well_row_def moves_def)

lemma incr_row:
  "incr [(''rock'', Cnt a), (''paper'', Cnt b), (''scissors'', Cnt c)] ''rock'' =
     [(''rock'', Cnt (a + 1)), (''paper'', Cnt b), (''scissors'', Cnt c)]"
  "incr [(''rock'', Cnt a), (''paper'', Cnt b), (''scissors'', Cnt c)] ''paper'' =
     [(''rock'', Cnt a), (''paper'', Cnt (b + 1)), (''scissors'', Cnt c)]"
  "incr [(''rock'', Cnt a), (''paper'', Cnt b), (''scissors'', Cnt c)] ''scissors'' =
     [(''rock'', Cnt a), (''paper'', Cnt b), (''scissors'', Cnt (c + 1))]"
  by (simp_all add: incr_def obj_get_def)

lemma sum_values_row:
  "sum_values [(''rock'', Cnt a), (''paper'', Cnt b), (''scissors'', Cnt c)] = Cnt (a + b + c)"
  by (simp add: sum_values_def obj_values_def)

lemma incr_well_row:
  assumes "m \<in> set moves" "well_row ob"
  shows "well_row (incr ob m)"
proof -
  from well_row_shape [OF assms(2)] obtain a b c
    where ob: "ob = [(''rock'', Cnt a), (''paper'', Cnt b), (''scissors'', Cnt c)]" by blast
  from assms(1) have "m = ''rock'' \<or> m = ''paper'' \<or> m = ''scissors''" by (simp add: moves_def)
  then show ?thesis unfolding ob by (auto simp only: incr_row well_row_intro)
qed

lemma incr_sum_values:
  assumes "m \<in> set moves" "well_row ob" "sum_values ob = Cnt n"
  shows "sum_values (incr ob m) = Cnt (n + 1)"
proof -
  from well_row_shape [OF assms(2)] obtain a b c
    where ob: "ob = [(''rock'', Cnt a), (''paper'', Cnt b), (''scissors'', Cnt c)]" by blast
  from assms(1) have "m = ''rock'' \<or> m = ''paper'' \<or> m = ''scissors''" by (simp add: moves_def)
  then show ?thesis using assms(3) unfolding ob by (auto simp add: incr_row sum_values_row)
qed

lemma map_fst_obj_set:
  "k \<in> set (map fst ob) \<Longrightarrow> map fst (obj_set ob k v) = map fst ob"
  by (induction ob) force+


lemma obj_get_in_set: "obj_get ob k = Some v \<Longrightarrow> v \<in> set (map snd ob)"
  by (induction ob) (auto simp add: obj_get_def split: if_splits)

lemma obj_get_keys: "k \<in> set (map fst ob) \<Longrightarrow> obj_get ob k \<noteq> None"
  by (induction ob) (auto simp add: obj_get_def)

lemma obj_get_None_keys: "obj_get ob k = None \<Longrightarrow> k \<notin> set (map fst ob)"
  using obj_get_keys by blast

lemma updatePattern_positive:
  assumes "list_all (\<lambda>e. 0 < sum_list (map snd (snd e))) (patterns s)"
  shows "list_all (\<lambda>e. 0 < sum_list (map snd (snd e))) (patterns (updatePattern m s len))"
proof -
  have pos: "0 < sum_list (map snd (obj_set cnt m (Suc n)))" for cnt :: "nat obj" and n
    by (induction cnt) auto
  have keep: "list_all P (obj_set tab k v)" if "list_all P tab" "P (k, v)" for P and tab :: "nat obj obj" and k v
    using that by (induction tab) auto
  show ?thesis
    using assms by (auto simp add: updatePattern_def Let_def intro!: keep pos)
qed

lemma updatePatterns_positive:
  assumes "list_all (\<lambda>e. 0 < sum_list (map snd (snd e))) (patterns s)"
  shows "list_all (\<lambda>e. 0 < sum_list (map snd (snd e))) (patterns (updatePatterns s m))"
  unfolding updatePatterns_def using assms by (simp add: updatePattern_positive)

lemma list_all_obj_set:
  "list_all P (map snd ob) \<Longrightarrow> P v \<Longrightarrow> list_all P (map snd (obj_set ob k v))"
  by (induction ob) auto

lemma history_pushHistory:
  "set (history (pushHistory s m)) \<subseteq> insert m (set (history s))"
  "history (pushHistory s m) \<noteq> []"
proof -
  show "set (history (pushHistory s m)) \<subseteq> insert m (set (history s))"
    by (cases "history s") (auto simp add: pushHistory_def Let_def dest: list.set_sel(2) in_set_butlastD)
  show "history (pushHistory s m) \<noteq> []"
    by (cases "history s") (auto simp add: pushHistory_def Let_def)
qed

lemma countMove_inv:
  assumes inv: "inv_ai s" and m: "m \<in> set moves"
  shows "\<exists>s'. countMove s m = Inr s' \<and> well_row (moveCounts s') \<and>
           sum_values (moveCounts s') = Cnt (totalMoves s') \<and>
           map fst (transitions s') = moves \<and> list_all well_row (map snd (transitions s'))"
proof (cases "history s = []")
  case True
  with inv m show ?thesis
    by (simp add: countMove_def Let_def inv_ai_def incr_well_row incr_sum_values)
next
  case False
  with inv have l: "last (history s) \<in> set (map fst (transitions s))"
    using last_in_set by (fastforce simp add: inv_ai_def)
  then obtain row where row: "obj_get (transitions s) (last (history s)) = Some row"
    using obj_get_keys by blast
  from obj_get_in_set [OF row] inv have "well_row row"
    by (auto simp add: inv_ai_def list_all_iff)
  with m have "well_row (incr row m)" by (rule incr_well_row)
  with inv have "list_all well_row (map snd (obj_set (transitions s) (last (history s)) (incr row m)))"
    by (simp add: inv_ai_def list_all_obj_set)
  with inv m False row l show ?thesis
    by (simp add: countMove_def Let_def inv_ai_def incr_well_row incr_sum_values map_fst_obj_set)
qed

lemma learn_inv:
  assumes inv: "inv_ai s" and m: "m \<in> set moves"
  shows "\<exists>s'. learn s m = Inr s' \<and> inv_ai s'"
proof -
  from countMove_inv [OF inv m] obtain s1 where s1: "countMove s m = Inr s1"
    and a: "well_row (moveCounts s1)" "sum_values (moveCounts s1) = Cnt (totalMoves s1)"
       "map fst (transitions s1) = moves" "list_all well_row (map snd (transitions s1))"
    by blast
  let ?s' = "pushHistory (countCounter (updatePatterns s1 m) m) m"
  have l: "learn s m = Inr ?s'" by (simp add: learn_def s1)
  have h: "set (history ?s') \<subseteq> set moves"
    using history_pushHistory(1) [of "countCounter (updatePatterns s1 m) m" m] inv m
    by (auto simp add: countCounter_frame updatePatterns_frame countMove_frame [OF s1] inv_ai_def)
  have p: "list_all (\<lambda>e. 0 < sum_list (map snd (snd e))) (patterns ?s')"
    using inv by (simp add: pushHistory_frame countCounter_frame updatePatterns_positive countMove_frame [OF s1] inv_ai_def)
  have "inv_ai ?s'"
    unfolding inv_ai_def using a h p history_pushHistory(2)
    by (simp add: pushHistory_frame countCounter_frame updatePatterns_frame)
  with l show ?thesis by blast
qed

lemma inv_ai_prediction_fields:
  "inv_ai (s\<lparr>lastConfidence := c\<rparr>) = inv_ai s"
  "inv_ai (s\<lparr>lastConfidence := c, lastPrediction := p\<rparr>) = inv_ai s"
  by (simp_all add: inv_ai_def)

lemma predictByMarkov_returns:
  assumes "inv_ai s"
  shows "\<exists>p. predictByMarkov s = Inr p"
proof (cases "history s = []")
  case True
  then show ?thesis by (simp add: predictByMarkov_def)
next
  case False
  with assms have "last (history s) \<in> set (map fst (transitions s))"
    using last_in_set by (fastforce simp add: inv_ai_def)
  then obtain row where "obj_get (transitions s) (last (history s)) = Some row"
    using obj_get_keys by blast
  with False show ?thesis
    by (simp add: predictByMarkov_def Let_def split: prod.splits)
qed

lemma predict_inv:
  assumes "inv_ai s"
  shows "\<exists>mv s'. predict s r = Inr (mv, s') \<and> inv_ai s'"
proof (cases "totalMoves s < 5")
  case True
  with assms show ?thesis by (simp add: predict_def inv_ai_prediction_fields)
next
  case False
  from predictByMarkov_returns [OF assms] obtain p where "predictByMarkov s = Inr p" by blast
  with False assms show ?thesis
    by (simp add: predict_def predictions_of_def Let_def inv_ai_prediction_fields split: prod.splits)
qed

lemma step_inv:
  assumes "inv_ai s" "valid_call c"
  shows "\<exists>s'. step s c = Inr s' \<and> inv_ai s'"
proof (cases c)
  case (Learn m)
  with assms learn_inv [of s m] show ?thesis by simp
next
  case (GetMove r)
  from predict_inv [OF assms(1), of r] obtain mv s' where "predict s r = Inr (mv, s')" "inv_ai s'"
    by blast
  with GetMove show ?thesis by (simp add: getMove_def)
next
  case Reset
  have "inv_ai (reset s)"
    by (simp add: inv_ai_def reset_def well_row_def moves_def sum_values_def obj_values_def)
  with Reset show ?thesis by simp
qed

lemma run_inv:
  assumes "inv_ai s" "list_all valid_call cs"
  shows "\<exists>s'. run s cs = Inr s' \<and> inv_ai s'"
  using assms
proof (induction cs arbitrary: s)
  case Nil
  then show ?case by simp
next
  case (Cons c cs)
  from step_inv [of s c] Cons.prems obtain s1 where "step s c = Inr s1" "inv_ai s1" by auto
  with Cons.IH [of s1] Cons.prems show ?case by simp
qed

lemma inv_ai_new: "inv_ai new_ai"
  by (simp add: inv_ai_def new_ai_def well_row_def moves_def sum_values_def obj_values_def)


section \<open>Frequency counts\<close>

text \<open>
  Claim C6. Start from a freshly constructed engine, or from any engine after \<open>reset\<close>,
  and make any sequence of calls in which every learned move is one of the three. No call
  throws, and in the state reached (so in particular after every \<open>learn\<close>) the frequency
  table holds exactly the three counts and their sum is \<open>totalMoves\<close>.
\<close>

theorem frequency_sum_totalMoves:
  assumes "list_all valid_call cs"
  shows "\<exists>s a b c. run new_ai cs = Inr s \<and> run (reset s0) cs = Inr s \<and>
           moveCounts s = [(''rock'', Cnt a), (''paper'', Cnt b), (''scissors'', Cnt c)] \<and>
           a + b + c = totalMoves s"
proof -
  from run_inv [OF inv_ai_new assms] obtain s where s: "run new_ai cs = Inr s" "inv_ai s" by blast
  from s(2) have w: "well_row (moveCounts s)" and t: "sum_values (moveCounts s) = Cnt (totalMoves s)"
    by (simp_all add: inv_ai_def)
  from well_row_shape [OF w] obtain a b c
    where mc: "moveCounts s = [(''rock'', Cnt a), (''paper'', Cnt b), (''scissors'', Cnt c)]" by blast
  with t have "a + b + c = totalMoves s" by (simp add: sum_values_row)
  moreover have "reset s0 = new_ai" by (simp add: reset_def new_ai_def)
  ultimately show ?thesis using s(1) mc by simp
qed

theorem frequency_sum_totalMoves_witness:
  "list_all valid_call [Learn ''rock'', GetMove 0, Learn ''paper''] \<and>
   (\<exists>s a b c. run new_ai [Learn ''rock'', GetMove 0, Learn ''paper''] = Inr s \<and>
       run (reset new_ai) [Learn ''rock'', GetMove 0, Learn ''paper''] = Inr s \<and>
       moveCounts s = [(''rock'', Cnt a), (''paper'', Cnt b), (''scissors'', Cnt c)] \<and>
       a + b + c = totalMoves s \<and> totalMoves s = 2)"
proof -
  have v: "list_all valid_call [Learn ''rock'', GetMove 0, Learn ''paper'']"
    by (simp add: moves_def)
  have e: "(case run new_ai [Learn ''rock'', GetMove 0, Learn ''paper''] of Inl e \<Rightarrow> 0 | Inr s \<Rightarrow> totalMoves s) = 2"
    by code_simp
  from frequency_sum_totalMoves [OF v, of new_ai] obtain s a b c
    where s: "run new_ai [Learn ''rock'', GetMove 0, Learn ''paper''] = Inr s"
      "run (reset new_ai) [Learn ''rock'', GetMove 0, Learn ''paper''] = Inr s"
      "moveCounts s = [(''rock'', Cnt a), (''paper'', Cnt b), (''scissors'', Cnt c)]"
      "a + b + c = totalMoves s"
    by blast
  from e s(1) have "totalMoves s = 2" by simp
  with s v show ?thesis by blast
qed


section \<open>Six identical moves\<close>

lemma six_rocks_learned:
  "run new_ai (map Learn [''rock'', ''rock'', ''rock'', ''rock'', ''rock'', ''rock'']) = Inr six_rocks"
  by code_simp

lemma six_rocks_getMove_step:
  "getMove (six_rocks\<lparr>lastConfidence := c, lastPrediction := p\<rparr>) r =
     Inr (Some ''paper'', six_rocks\<lparr>lastConfidence := 100, lastPrediction := Some ''rock''\<rparr>)"
  by (simp add: getMove_def predict_def predictions_of_def predictByMarkov_def predictByFrequency_def
     predictByPattern_def predictByMetaStrategy_def matchPattern_def combine_def add_score_def
     weights_def total_score_def sum_values_def obj_values_def obj_get_def slice_def Let_def
     six_rocks_def abstain_def counterMove_def counters_def)

lemma six_rocks_getMoves:
  "\<exists>c p. run (six_rocks\<lparr>lastConfidence := conf, lastPrediction := pred\<rparr>) (map GetMove rs) =
           Inr (six_rocks\<lparr>lastConfidence := c, lastPrediction := p\<rparr>)"
proof (induction rs arbitrary: conf pred)
  case Nil
  show ?case by auto
next
  case (Cons r rs)
  show ?case using Cons.IH [where conf = 100 and pred = "Some ''rock''"] by (simp add: six_rocks_getMove_step)
qed

text \<open>
  Claim C1. A freshly constructed engine learns \<open>rock\<close> six times. Then every call of
  \<open>getMove\<close>, after any number of earlier such calls and whatever \<open>Math.random\<close> would
  return, gives \<open>paper\<close>, and \<open>getConfidence\<close> right after it is at least 90 (it is 100).
  In this scenario every double the engine computes is the exact value: the products of
  the weights with 100 round to 20, 40 and 30.
\<close>

theorem six_rocks_paper:
  "\<exists>s6 s' s''. run new_ai (map Learn [''rock'', ''rock'', ''rock'', ''rock'', ''rock'', ''rock'']) = Inr s6 \<and>
      run s6 (map GetMove rs) = Inr s' \<and>
      getMove s' r = Inr (Some ''paper'', s'') \<and> 90 \<le> getConfidence s''"
proof -
  have e: "six_rocks = six_rocks\<lparr>lastConfidence := 0, lastPrediction := None\<rparr>"
    by (simp add: six_rocks_def)
  from six_rocks_getMoves [where conf = 0 and pred = None and rs = rs] obtain c p
    where "run six_rocks (map GetMove rs) = Inr (six_rocks\<lparr>lastConfidence := c, lastPrediction := p\<rparr>)"
    unfolding e [symmetric] by blast
  moreover have "90 \<le> getConfidence (six_rocks\<lparr>lastConfidence := 100, lastPrediction := Some ''rock''\<rparr>)"
    by (simp add: getConfidence_def)
  ultimately show ?thesis
    using six_rocks_learned six_rocks_getMove_step by blast
qed

theorem six_rocks_paper_witness:
  "\<exists>s6 s' s''. run new_ai (map Learn [''rock'', ''rock'', ''rock'', ''rock'', ''rock'', ''rock'']) = Inr s6 \<and>
      run s6 (map GetMove [0, 1 / 2]) = Inr s' \<and>
      getMove s' (9 / 10) = Inr (Some ''paper'', s'') \<and> 90 \<le> getConfidence s''"
  by (rule six_rocks_paper)


section \<open>Recent history\<close>

text \<open>
  Claim C8, at the input where the code departs from it: after one \<open>rock\<close> has been
  learned, \<open>getRecentHistory(0)\<close> returns the whole history, one move, not at most zero
  moves. \<open>slice(-0)\<close> is \<open>slice(0)\<close>.
\<close>

theorem getRecentHistory_zero:
  "(case learn new_ai ''rock'' of Inl e \<Rightarrow> [] | Inr s \<Rightarrow> getRecentHistory s (Some 0)) = [''rock'']"
  by code_simp

text \<open>For a positive \<open>n\<close> the result is the end of the history and has at most \<open>n\<close> moves.\<close>

lemma getRecentHistory_positive:
  assumes "0 < n"
  shows "length (getRecentHistory s (Some n)) \<le> nat n"
    and "\<exists>older. history s = older @ getRecentHistory s (Some n)"
proof -
  show "length (getRecentHistory s (Some n)) \<le> nat n"
    using assms by (auto simp add: getRecentHistory_def slice_def Let_def)
  have "history s = take k (history s) @ drop k (history s)" for k by simp
  then show "\<exists>older. history s = older @ getRecentHistory s (Some n)"
    unfolding getRecentHistory_def slice_def Let_def by (simp only: option.case) blast
qed


section \<open>Cold start\<close>

lemma predict_cold:
  assumes "totalMoves s < 5"
  shows "predict s r = Inr (randomMove r, s\<lparr>lastConfidence := 33\<rparr>)"
  using assms by (simp add: predict_def)

lemma playRound_cold:
  assumes inv: "inv_ai s" and m: "m \<in> set moves" and cold: "totalMoves s < 5"
    and np: "lastPrediction s = None"
  shows "\<exists>s'. playRound s (r, m) = Inr s' \<and> inv_ai s' \<and> totalMoves s' = totalMoves s + 1 \<and>
           lastPrediction s' = None \<and> counterAttempts s' = counterAttempts s"
proof -
  let ?s1 = "s\<lparr>lastConfidence := 33\<rparr>"
  have g: "getMove s r = Inr (counterMove (randomMove r), ?s1)"
    by (simp add: getMove_def predict_cold [OF cold])
  from inv have "inv_ai ?s1" by (simp add: inv_ai_prediction_fields)
  from learn_inv [OF this m] obtain s' where s': "learn ?s1 m = Inr s'" "inv_ai s'" by blast
  from learn_effect [OF s'(1)] np
  have "totalMoves s' = totalMoves s + 1" "lastPrediction s' = None" "counterAttempts s' = counterAttempts s"
    by simp_all
  with s' g show ?thesis by (simp add: playRound_def)
qed

lemma playRounds_cold:
  assumes "inv_ai s" "list_all (\<lambda>t. snd t \<in> set moves) turns" "totalMoves s + length turns \<le> 5"
    "lastPrediction s = None"
  shows "\<exists>s'. playRounds s turns = Inr s' \<and> lastPrediction s' = None \<and>
           counterAttempts s' = counterAttempts s"
  using assms
proof (induction turns arbitrary: s)
  case Nil
  then show ?case by simp
next
  case (Cons t turns)
  obtain r m where t: "t = (r, m)" by (cases t)
  with Cons.prems have "m \<in> set moves" "totalMoves s < 5" by simp_all
  from playRound_cold [OF Cons.prems(1) this Cons.prems(4), of r]
  obtain s1 where s1: "playRound s (r, m) = Inr s1" "inv_ai s1" "totalMoves s1 = totalMoves s + 1"
    "lastPrediction s1 = None" "counterAttempts s1 = counterAttempts s" by blast
  from Cons.IH [of s1] s1 Cons.prems obtain s' where "playRounds s1 turns = Inr s'"
    "lastPrediction s' = None" "counterAttempts s' = counterAttempts s1" by auto
  with s1 t show ?case by simp
qed

text \<open>
  Claim C10. While \<open>totalMoves\<close> is below 5, \<open>predict\<close> returns after writing 33 to
  \<open>lastConfidence\<close> and leaves \<open>lastPrediction\<close> as it was. So on a freshly constructed
  or reset engine that plays up to five rounds, each a \<open>getMove\<close> followed by \<open>learn\<close> of
  one of the three moves, no call throws, and after every round \<open>lastPrediction\<close> is still
  \<open>null\<close> and \<open>counterAttempts\<close> is still 0.
\<close>

theorem cold_start_no_prediction:
  assumes "length turns \<le> 5" "list_all (\<lambda>t. snd t \<in> set moves) turns"
  shows "(\<forall>s r. totalMoves s < 5 \<longrightarrow>
            (\<exists>mv s'. predict s r = Inr (mv, s') \<and> lastConfidence s' = 33 \<and>
                lastPrediction s' = lastPrediction s)) \<and>
         (\<exists>s'. playRounds new_ai turns = Inr s' \<and> playRounds (reset s0) turns = Inr s' \<and>
                lastPrediction s' = None \<and> counterAttempts s' = 0)"
proof -
  have n: "totalMoves new_ai + length turns \<le> 5" "lastPrediction new_ai = None" "counterAttempts new_ai = 0"
    using assms(1) by (simp_all add: new_ai_def)
  from playRounds_cold [OF inv_ai_new assms(2) n(1,2)] n(3)
  obtain s' where "playRounds new_ai turns = Inr s'" "lastPrediction s' = None" "counterAttempts s' = 0"
    by auto
  moreover have "reset s0 = new_ai" by (simp add: reset_def new_ai_def)
  ultimately show ?thesis by (auto simp add: predict_cold)
qed

theorem cold_start_no_prediction_witness:
  "length [(0 :: rat, ''paper''), (1 / 2, ''rock''), (9 / 10, ''rock''), (0, ''scissors''), (1 / 3, ''paper'')] \<le> 5 \<and>
   list_all (\<lambda>t. snd t \<in> set moves) [(0 :: rat, ''paper''), (1 / 2, ''rock''), (9 / 10, ''rock''), (0, ''scissors''), (1 / 3, ''paper'')] \<and>
   totalMoves new_ai < 5 \<and>
   (\<exists>mv s'. predict new_ai 0 = Inr (mv, s') \<and> lastConfidence s' = 33 \<and> lastPrediction s' = lastPrediction new_ai) \<and>
   (\<exists>s'. playRounds new_ai [(0, ''paper''), (1 / 2, ''rock''), (9 / 10, ''rock''), (0, ''scissors''), (1 / 3, ''paper'')] = Inr s' \<and>
       totalMoves s' = 5 \<and> lastPrediction s' = None \<and> counterAttempts s' = 0)"
proof -
  let ?turns = "[(0 :: rat, ''paper''), (1 / 2, ''rock''), (9 / 10, ''rock''), (0, ''scissors''), (1 / 3, ''paper'')]"
  have a: "length ?turns \<le> 5" by simp
  have b: "list_all (\<lambda>t. snd t \<in> set moves) ?turns" by (simp add: moves_def)
  have c: "totalMoves new_ai < 5" by (simp add: new_ai_def)
  have e: "(case playRounds new_ai ?turns of Inl e \<Rightarrow> 0 | Inr s \<Rightarrow> totalMoves s) = 5"
    by code_simp
  from cold_start_no_prediction [OF a b, of new_ai] c
  have p: "\<exists>mv s'. predict new_ai 0 = Inr (mv, s') \<and> lastConfidence s' = 33 \<and> lastPrediction s' = lastPrediction new_ai"
    and "\<exists>s'. playRounds new_ai ?turns = Inr s' \<and> lastPrediction s' = None \<and> counterAttempts s' = 0"
    by blast+
  then obtain s' where s': "playRounds new_ai ?turns = Inr s'" "lastPrediction s' = None" "counterAttempts s' = 0"
    by blast
  from e s'(1) have "totalMoves s' = 5" by simp
  with s' a b c p show ?thesis by blast
qed


section \<open>Learning a value that is not a move\<close>

lemma obj_get_absent: "k \<notin> set (map fst ob) \<Longrightarrow> obj_get ob k = None"
  by (induction ob) (auto simp add: obj_get_def)




lemma pushHistory_last: "\<exists>older. history (pushHistory s m) = older @ [m]"
  by (cases "history s") (auto simp add: pushHistory_def Let_def)

lemma learn_history_last:
  assumes "learn s m = Inr s'"
  shows "\<exists>older. history s' = older @ [m]"
  using assms pushHistory_last by (auto simp add: learn_def split: sum.splits)




text \<open>
  The error comes one call late: the value that was learned has no row in the transition
  table, so the next \<open>learn\<close>, of whatever move, throws a \<open>TypeError\<close>; \<open>totalMoves\<close> has
  been incremented by then, and the history, the transition table and the pattern table
  are as they were.
\<close>

lemma obj_get_Some_keys: "obj_get ob k = Some v \<Longrightarrow> k \<in> set (map fst ob)"
  by (induction ob) (auto simp add: obj_get_def split: if_splits)

lemma learn_transition_keys:
  assumes "learn s m = Inr s'"
  shows "map fst (transitions s') = map fst (transitions s)"
proof -
  from assms obtain s1 where s1: "countMove s m = Inr s1"
    and s': "s' = pushHistory (countCounter (updatePatterns s1 m) m) m"
    by (auto simp add: learn_def split: sum.splits)
  from s1 have "map fst (transitions s1) = map fst (transitions s)"
    by (auto simp add: countMove_def Let_def split: if_splits option.splits
          intro!: map_fst_obj_set dest: obj_get_Some_keys)
  then show ?thesis
    unfolding s' by (simp add: pushHistory_frame countCounter_frame updatePatterns_frame)
qed

lemma learn_after_out_of_domain:
  assumes "m \<notin> set moves" "m \<notin> set object_prototype_keys" "inv_ai s" "learn s m = Inr s'"
  shows "\<exists>s''. learn s' m2 = Inl (TypeError, s'') \<and> totalMoves s'' = totalMoves s' + 1 \<and>
           history s'' = history s' \<and> transitions s'' = transitions s' \<and> patterns s'' = patterns s'"
proof -
  from learn_history_last [OF assms(4)] have h: "history s' \<noteq> []" "last (history s') = m" by auto
  from learn_transition_keys [OF assms(4)] assms(1,3) have "m \<notin> set (map fst (transitions s'))"
    by (simp add: inv_ai_def)
  then have "obj_get (transitions s') m = None" by (rule obj_get_absent)
  with h show ?thesis by (simp add: learn_def countMove_def Let_def)
qed


section \<open>The pattern table\<close>

lemma slice_last:
  "len \<le> length h \<Longrightarrow> 0 < len \<Longrightarrow> slice h (- int len) = drop (length h - len) h"
  by (simp add: slice_def Let_def nat_diff_distrib' of_nat_diff)

lemma length_join:
  "xs \<noteq> [] \<Longrightarrow> length (join sep xs) = sum_list (map length xs) + length sep * (length xs - 1)"
  by (induction sep xs rule: join.induct) auto

lemma join_longer:
  assumes "a < b" "b \<le> length h" "0 < a"
  shows "length (join ''-'' (drop (length h - a) h)) < length (join ''-'' (drop (length h - b) h))"
proof -
  let ?ys = "drop (length h - b) h"
  let ?zs = "drop (length h - a) h"
  have z: "?zs = drop (b - a) ?ys" using assms by simp
  have ly: "length ?ys = b" and lz: "length ?zs = a" using assms by simp_all
  have "sum_list (map length ?zs) \<le> sum_list (map length ?ys)"
  proof -
    have "sum_list (map length ?ys) =
            sum_list (map length (take (b - a) ?ys)) + sum_list (map length (drop (b - a) ?ys))"
      by (metis append_take_drop_id map_append sum_list.append)
    then show ?thesis unfolding z by simp
  qed
  moreover have "?ys \<noteq> []" "?zs \<noteq> []" using assms ly lz by auto
  ultimately show ?thesis
    using assms by (simp add: length_join ly lz)
qed

lemma pattern_key_distinct:
  assumes "a < b" "b \<le> length h" "0 < a"
  shows "join ''-'' (slice h (- int a)) \<noteq> join ''-'' (slice h (- int b))"
proof -
  from assms have "slice h (- int a) = drop (length h - a) h" "slice h (- int b) = drop (length h - b) h"
    by (simp_all add: slice_last)
  with join_longer [OF assms] show ?thesis by auto
qed

lemma distinct_pattern_keys: "distinct (pattern_keys h)"
proof -
  have d: "join ''-'' (slice h (- int a)) \<noteq> join ''-'' (slice h (- int b))"
    if "a < b" "b \<le> length h" "0 < a" for a b
    using that by (rule pattern_key_distinct)
  show ?thesis
    unfolding pattern_keys_def
    using d [of 2 3] d [of 2 4] d [of 3 4] by auto
qed

lemma length_pattern_keys: "length (pattern_keys h) = length (filter (\<lambda>len. len \<le> length h) [2, 3, 4])"
  by (simp add: pattern_keys_def)

lemma updatePattern_get:
  "obj_get (patterns (updatePattern m s len)) k =
     (if len \<le> length (history s) \<and> k = join ''-'' (slice (history s) (- int len))
      then Some (obj_set (case obj_get (patterns s) k of None \<Rightarrow> [] | Some c \<Rightarrow> c) m
                   ((case obj_get (case obj_get (patterns s) k of None \<Rightarrow> [] | Some c \<Rightarrow> c) m of
                       None \<Rightarrow> 0 | Some n \<Rightarrow> n) + 1))
      else obj_get (patterns s) k)"
  by (simp add: updatePattern_def Let_def obj_get_set)

lemma updatePattern_count:
  "pattern_count (patterns (updatePattern m s len)) k m' =
     pattern_count (patterns s) k m' +
       (if len \<le> length (history s) \<and> k = join ''-'' (slice (history s) (- int len)) \<and> m' = m
        then 1 else 0)"
proof -
  have n: "obj_get ([] :: nat obj) x = None" for x by (simp add: obj_get_def)
  show ?thesis
    by (auto simp add: pattern_count_def updatePattern_get obj_get_set n split: option.splits)
qed

lemma updatePattern_history: "history (updatePattern m s len) = history s"
  by (simp add: updatePattern_frame)

lemma foldl_updatePattern_history: "history (foldl (updatePattern m) s lens) = history s"
  by (induction lens arbitrary: s) (simp_all add: updatePattern_history)

lemma foldl_updatePattern_count:
  "pattern_count (patterns (foldl (updatePattern m) s lens)) k m' =
     pattern_count (patterns s) k m' +
       length (filter (\<lambda>len. len \<le> length (history s) \<and> k = join ''-'' (slice (history s) (- int len)) \<and> m' = m) lens)"
  by (induction lens arbitrary: s) (simp_all add: updatePattern_count updatePattern_history)

lemma foldl_updatePattern_other:
  assumes "\<forall>len \<in> set lens. len \<le> length (history s) \<longrightarrow> k \<noteq> join ''-'' (slice (history s) (- int len))"
  shows "obj_get (patterns (foldl (updatePattern m) s lens)) k = obj_get (patterns s) k"
  using assms
proof (induction lens arbitrary: s)
  case Nil
  show ?case by simp
next
  case (Cons len lens)
  from Cons.prems have a: "\<not> (len \<le> length (history s) \<and> k = join ''-'' (slice (history s) (- int len)))"
    by auto
  have "obj_get (patterns (updatePattern m s len)) k = obj_get (patterns s) k"
    using a by (simp only: updatePattern_get if_False)
  moreover have "obj_get (patterns (foldl (updatePattern m) (updatePattern m s len) lens)) k =
      obj_get (patterns (updatePattern m s len)) k"
    using Cons.prems by (intro Cons.IH) (simp add: updatePattern_history)
  ultimately show ?case by simp
qed


lemma pattern_keys_mem:
  "k \<in> set (pattern_keys h) \<longleftrightarrow>
     (2 \<le> length h \<and> k = join ''-'' (slice h (- int 2))) \<or>
     (3 \<le> length h \<and> k = join ''-'' (slice h (- int 3))) \<or>
     (4 \<le> length h \<and> k = join ''-'' (slice h (- int 4)))"
  unfolding pattern_keys_def by (auto simp del: join.simps)

lemma updatePatterns_count:
  "pattern_count (patterns (updatePatterns s m)) k m' =
     pattern_count (patterns s) k m' + (if m' = m \<and> k \<in> set (pattern_keys (history s)) then 1 else 0)"
proof -
  define K where "K len = join ''-'' (slice (history s) (- int len))" for len
  define n where "n = length (history s)"
  have d: "K a \<noteq> K b" if "a < b" "b \<le> n" "0 < a" for a b
    using that unfolding K_def n_def by (rule pattern_key_distinct)
  have c: "pattern_count (patterns (updatePatterns s m)) k m' =
       pattern_count (patterns s) k m' +
         ((if 2 \<le> n \<and> k = K 2 \<and> m' = m then 1 else 0) +
          (if 3 \<le> n \<and> k = K 3 \<and> m' = m then 1 else 0) +
          (if 4 \<le> n \<and> k = K 4 \<and> m' = m then 1 else 0))"
    unfolding updatePatterns_def foldl_updatePattern_count K_def n_def by simp
  have mem: "k \<in> set (pattern_keys (history s)) \<longleftrightarrow>
       (2 \<le> n \<and> k = K 2) \<or> (3 \<le> n \<and> k = K 3) \<or> (4 \<le> n \<and> k = K 4)"
    unfolding K_def n_def by (rule pattern_keys_mem)
  have x: "\<not> (3 \<le> n \<and> k = K 2 \<and> k = K 3)" "\<not> (4 \<le> n \<and> k = K 2 \<and> k = K 4)"
    "\<not> (4 \<le> n \<and> k = K 3 \<and> k = K 4)"
    using d [of 2 3] d [of 2 4] d [of 3 4] by auto
  have "((if 2 \<le> n \<and> k = K 2 \<and> m' = m then 1 else 0) +
          (if 3 \<le> n \<and> k = K 3 \<and> m' = m then 1 else 0) +
          (if 4 \<le> n \<and> k = K 4 \<and> m' = m then 1 else (0 :: nat))) =
        (if m' = m \<and> k \<in> set (pattern_keys (history s)) then 1 else 0)"
  proof (cases "m' = m")
    case False
    then show ?thesis by simp
  next
    case True
    show ?thesis
    proof (cases "4 \<le> n \<and> k = K 4")
      case True
      with x \<open>m' = m\<close> mem show ?thesis by auto
    next
      case f4: False
      show ?thesis
      proof (cases "3 \<le> n \<and> k = K 3")
        case True
        with x f4 \<open>m' = m\<close> mem show ?thesis by auto
      next
        case False
        with f4 \<open>m' = m\<close> mem show ?thesis by auto
      qed
    qed
  qed
  with c show ?thesis by simp
qed

lemma updatePatterns_changed:
  "{k. obj_get (patterns (updatePatterns s m)) k \<noteq> obj_get (patterns s) k} = set (pattern_keys (history s))"
proof (intro set_eqI iffI)
  fix k
  assume "k \<in> {k. obj_get (patterns (updatePatterns s m)) k \<noteq> obj_get (patterns s) k}"
  then have c: "obj_get (patterns (updatePatterns s m)) k \<noteq> obj_get (patterns s) k" by simp
  show "k \<in> set (pattern_keys (history s))"
  proof (rule ccontr)
    assume "k \<notin> set (pattern_keys (history s))"
    then have "\<forall>len \<in> set [2, 3, 4 :: nat]. len \<le> length (history s) \<longrightarrow>
                 k \<noteq> join ''-'' (slice (history s) (- int len))"
      by (auto simp add: pattern_keys_def)
    from foldl_updatePattern_other [OF this] c show False by (simp add: updatePatterns_def)
  qed
next
  fix k
  assume "k \<in> set (pattern_keys (history s))"
  with updatePatterns_count [of s m k m]
  have "pattern_count (patterns (updatePatterns s m)) k m \<noteq> pattern_count (patterns s) k m" by simp
  then have "obj_get (patterns (updatePatterns s m)) k \<noteq> obj_get (patterns s) k"
    by (auto simp add: pattern_count_def)
  then show "k \<in> {k. obj_get (patterns (updatePatterns s m)) k \<noteq> obj_get (patterns s) k}" by simp
qed



lemma learn_patterns:
  assumes "learn s m = Inr s'"
  shows "\<exists>s1. patterns s' = patterns (updatePatterns s1 m) \<and> history s1 = history s \<and>
           patterns s1 = patterns s"
proof -
  from assms obtain s1 where s1: "countMove s m = Inr s1"
    and s': "s' = pushHistory (countCounter (updatePatterns s1 m) m) m"
    by (auto simp add: learn_def split: sum.splits)
  have "patterns s' = patterns (updatePatterns s1 m)"
    unfolding s' by (simp add: pushHistory_frame countCounter_frame)
  with countMove_frame(1,2) [OF s1] show ?thesis by blast
qed

text \<open>
  Claim C5. Whenever \<open>learn s m\<close> can read the transition row of the most recent move, it
  returns, and in the pattern table: for each length 2, 3 and 4 that the history before
  the call covers, the entry keyed by the last so many moves counts \<open>m\<close> once more; no
  other count of any entry changes; and the entries that changed are as many as the
  lengths the history covers, which is at most 4 (there are three lengths, so it is at
  most 3).
\<close>

theorem learn_updates_patterns:
  assumes "history s = [] \<or> obj_get (transitions s) (last (history s)) \<noteq> None"
  shows "\<exists>s'. learn s m = Inr s' \<and>
           (\<forall>len \<in> {2, 3, 4}. len \<le> length (history s) \<longrightarrow>
              pattern_count (patterns s') (join ''-'' (drop (length (history s) - len) (history s))) m =
              pattern_count (patterns s) (join ''-'' (drop (length (history s) - len) (history s))) m + 1) \<and>
           (\<forall>key m'. m' \<noteq> m \<or> key \<notin> set (pattern_keys (history s)) \<longrightarrow>
              pattern_count (patterns s') key m' = pattern_count (patterns s) key m') \<and>
           card {key. obj_get (patterns s') key \<noteq> obj_get (patterns s) key} =
             length (filter (\<lambda>len. len \<le> length (history s)) [2, 3, 4]) \<and>
           card {key. obj_get (patterns s') key \<noteq> obj_get (patterns s) key} \<le> 4"
proof -
  from countMove_returns [OF assms] obtain s0 where "countMove s m = Inr s0" by blast
  then obtain s' where l: "learn s m = Inr s'" by (simp add: learn_def)
  from learn_patterns [OF l] obtain s1 where s1: "patterns s' = patterns (updatePatterns s1 m)"
    "history s1 = history s" "patterns s1 = patterns s" by blast
  have cnt: "pattern_count (patterns s') key m' =
      pattern_count (patterns s) key m' + (if m' = m \<and> key \<in> set (pattern_keys (history s)) then 1 else 0)"
    for key m'
    using updatePatterns_count [of s1 m key m'] by (simp add: s1)
  have a: "\<forall>len \<in> {2, 3, 4}. len \<le> length (history s) \<longrightarrow>
              pattern_count (patterns s') (join ''-'' (drop (length (history s) - len) (history s))) m =
              pattern_count (patterns s) (join ''-'' (drop (length (history s) - len) (history s))) m + 1"
  proof (intro ballI impI)
    fix len :: nat
    assume len: "len \<in> {2, 3, 4}" "len \<le> length (history s)"
    then have "0 < len" by auto
    with len(2) have "slice (history s) (- int len) = drop (length (history s) - len) (history s)"
      by (rule slice_last)
    then have "join ''-'' (drop (length (history s) - len) (history s)) = join ''-'' (slice (history s) (- int len))"
      by simp
    moreover from len have "join ''-'' (slice (history s) (- int len)) \<in> set (pattern_keys (history s))"
      unfolding pattern_keys_mem by auto
    ultimately show "pattern_count (patterns s') (join ''-'' (drop (length (history s) - len) (history s))) m =
              pattern_count (patterns s) (join ''-'' (drop (length (history s) - len) (history s))) m + 1"
      by (simp add: cnt)
  qed
  have b: "\<forall>key m'. m' \<noteq> m \<or> key \<notin> set (pattern_keys (history s)) \<longrightarrow>
              pattern_count (patterns s') key m' = pattern_count (patterns s) key m'"
    by (auto simp add: cnt)
  have "{key. obj_get (patterns s') key \<noteq> obj_get (patterns s) key} = set (pattern_keys (history s))"
    using updatePatterns_changed [of s1 m] by (simp add: s1)
  then have c: "card {key. obj_get (patterns s') key \<noteq> obj_get (patterns s) key} =
             length (filter (\<lambda>len. len \<le> length (history s)) [2, 3, 4])"
    by (simp add: distinct_card [OF distinct_pattern_keys] length_pattern_keys)
  have "length (filter (\<lambda>len. len \<le> length (history s)) [2, 3, 4 :: nat]) \<le> 4"
    by simp
  with a b c l show ?thesis by auto
qed

theorem learn_updates_patterns_witness:
  "obj_get (transitions six_rocks) (last (history six_rocks)) \<noteq> None \<and>
   (\<exists>s'. learn six_rocks ''paper'' = Inr s' \<and>
      pattern_count (patterns s') ''rock-rock'' ''paper'' = 1 \<and>
      pattern_count (patterns s') ''rock-rock-rock'' ''paper'' = 1 \<and>
      pattern_count (patterns s') ''rock-rock-rock-rock'' ''paper'' = 1 \<and>
      pattern_count (patterns s') ''rock-rock'' ''rock'' = 4 \<and>
      card {key. obj_get (patterns s') key \<noteq> obj_get (patterns six_rocks) key} = 3)"
proof -
  have h: "obj_get (transitions six_rocks) (last (history six_rocks)) \<noteq> None"
    by (simp add: six_rocks_def obj_get_def)
  then have "history six_rocks = [] \<or> obj_get (transitions six_rocks) (last (history six_rocks)) \<noteq> None"
    by simp
  from learn_updates_patterns [OF this, of "''paper''"] obtain s'
    where l: "learn six_rocks ''paper'' = Inr s'"
      and a: "\<forall>len \<in> {2, 3, 4}. len \<le> length (history six_rocks) \<longrightarrow>
              pattern_count (patterns s') (join ''-'' (drop (length (history six_rocks) - len) (history six_rocks))) ''paper'' =
              pattern_count (patterns six_rocks) (join ''-'' (drop (length (history six_rocks) - len) (history six_rocks))) ''paper'' + 1"
      and b: "\<forall>key m'. m' \<noteq> ''paper'' \<or> key \<notin> set (pattern_keys (history six_rocks)) \<longrightarrow>
              pattern_count (patterns s') key m' = pattern_count (patterns six_rocks) key m'"
      and c: "card {key. obj_get (patterns s') key \<noteq> obj_get (patterns six_rocks) key} =
             length (filter (\<lambda>len. len \<le> length (history six_rocks)) [2, 3, 4])"
    by blast
  have hist: "history six_rocks = [''rock'', ''rock'', ''rock'', ''rock'', ''rock'', ''rock'']"
    by (simp add: six_rocks_def)
  have p0: "pattern_count (patterns six_rocks) ''rock-rock'' ''paper'' = 0"
    "pattern_count (patterns six_rocks) ''rock-rock-rock'' ''paper'' = 0"
    "pattern_count (patterns six_rocks) ''rock-rock-rock-rock'' ''paper'' = 0"
    "pattern_count (patterns six_rocks) ''rock-rock'' ''rock'' = 4"
    by (simp_all add: six_rocks_def pattern_count_def obj_get_def)
  from a [rule_format, of 2] have "pattern_count (patterns s') ''rock-rock'' ''paper'' = 1"
    by (simp add: hist p0)
  moreover from a [rule_format, of 3] have "pattern_count (patterns s') ''rock-rock-rock'' ''paper'' = 1"
    by (simp add: hist p0)
  moreover from a [rule_format, of 4] have "pattern_count (patterns s') ''rock-rock-rock-rock'' ''paper'' = 1"
    by (simp add: hist p0)
  moreover from b [rule_format, of "''rock''" "''rock-rock''"] have "pattern_count (patterns s') ''rock-rock'' ''rock'' = 4"
    by (simp add: p0)
  moreover from c have "card {key. obj_get (patterns s') key \<noteq> obj_get (patterns six_rocks) key} = 3"
    by (simp add: hist)
  ultimately show ?thesis using h l by blast
qed


section \<open>The sub-predictors past the cold start\<close>

subsection \<open>The combiner keeps a positive score\<close>

lemma positive_scoreD:
  "positive_score scores m \<Longrightarrow> \<exists>x. obj_get scores m = Some (Num x) \<and> 0 < x"
  by (auto simp add: positive_score_def split: option.splits num.splits)

lemma add_score_keeps_positive:
  assumes "positive_score scores mv" "confidence p = Num c" "0 \<le> c"
    "obj_get weights method = Some w" "0 \<le> w"
  shows "positive_score (add_score (method, p) scores) mv"
proof (cases "move p")
  case None
  with assms(1) show ?thesis by (simp add: add_score_def)
next
  case (Some m)
  from positive_scoreD [OF assms(1)] obtain x where x: "obj_get scores mv = Some (Num x)" "0 < x"
    by blast
  show ?thesis
  proof (cases "m = mv")
    case True
    have "0 < x + w * c" using x(2) assms(3,5) by (simp add: add_pos_nonneg)
    with True Some x assms(2,4) show ?thesis
      by (auto simp add: add_score_def positive_score_def obj_get_set Let_def)
  next
    case False
    with Some x assms(1) show ?thesis
      by (auto simp add: add_score_def positive_score_def obj_get_set Let_def)
  qed
qed

lemma add_score_first_positive:
  assumes "move p = Some mv" "mv \<in> set moves" "confidence p = Num c" "0 < c"
  shows "positive_score
           (add_score (''frequency'', p) [(''rock'', Num 0), (''paper'', Num 0), (''scissors'', Num 0)]) mv"
proof -
  from assms(2) have "mv = ''rock'' \<or> mv = ''paper'' \<or> mv = ''scissors''" by (simp add: moves_def)
  then show ?thesis
    using assms(1,3,4)
    by (auto simp add: add_score_def positive_score_def obj_get_def weights_def Let_def)
qed

lemma best_score_mono: "x \<le> snd (best_score scores (b, x))"
proof (induction scores arbitrary: b x)
  case Nil
  show ?case by simp
next
  case (Cons e scores)
  obtain m sc where e: "e = (m, sc)" by (cases e)
  show ?case
  proof (cases sc)
    case NaN
    with e Cons.IH [of x b] show ?thesis by simp
  next
    case (Num y)
    with e Cons.IH [of x b] Cons.IH [of y m] show ?thesis
      by (auto intro: order_trans less_imp_le)
  qed
qed

lemma best_score_ge:
  assumes "(m, Num y) \<in> set scores"
  shows "y \<le> snd (best_score scores (b, x))"
  using assms
proof (induction scores arbitrary: b x)
  case Nil
  then show ?case by simp
next
  case (Cons e scores)
  obtain m' sc where e: "e = (m', sc)" by (cases e)
  show ?case
  proof (cases "(m, Num y) \<in> set scores")
    case True
    from Cons.IH [OF True] e show ?thesis by (cases sc) auto
  next
    case False
    with Cons.prems e have sc: "m' = m" "sc = Num y" by auto
    show ?thesis
    proof (cases "x < y")
      case True
      with e sc best_score_mono [of y scores m] show ?thesis by simp
    next
      case False
      with e sc best_score_mono [of x scores b] show ?thesis by simp
    qed
  qed
qed

lemma positive_score_best:
  assumes "positive_score scores mv"
  shows "0 < snd (best_score scores (b, 0))"
proof -
  from positive_scoreD [OF assms] obtain x where x: "obj_get scores mv = Some (Num x)" "0 < x"
    by blast
  from x(1) have "(mv, Num x) \<in> set scores" by (simp add: obj_get_def map_of_SomeD)
  from best_score_ge [OF this, of b 0] x(2) show ?thesis by simp
qed

subsection \<open>What each sub-predictor returns\<close>

lemma scan_max_row:
  assumes "0 < a + b + c"
  shows "\<exists>n mv. scan_max [(''rock'', Cnt a), (''paper'', Cnt b), (''scissors'', Cnt c)] (0, ''rock'') = (n, mv) \<and>
           0 < n \<and> mv \<in> set moves"
  using assms by (auto simp add: moves_def)

lemma predictByFrequency_warm:
  assumes "inv_ai s" "0 < totalMoves s"
  shows "\<exists>mv c. predictByFrequency s = \<lparr>move = Some mv, confidence = Num c\<rparr> \<and> mv \<in> set moves \<and> 0 < c"
proof -
  from assms(1) have w: "well_row (moveCounts s)" and t: "sum_values (moveCounts s) = Cnt (totalMoves s)"
    by (simp_all add: inv_ai_def)
  from well_row_shape [OF w] obtain a b c
    where mc: "moveCounts s = [(''rock'', Cnt a), (''paper'', Cnt b), (''scissors'', Cnt c)]" by blast
  with t assms(2) have "0 < a + b + c" by (simp add: sum_values_row)
  from scan_max_row [OF this] obtain n mv
    where sm: "scan_max (moveCounts s) (0, ''rock'') = (n, mv)" "0 < n" "mv \<in> set moves"
    unfolding mc by blast
  have "0 < rat_of_nat n / rat_of_nat (totalMoves s) * 100" using sm(2) assms(2) by simp
  with sm assms(2) show ?thesis by (simp add: predictByFrequency_def Let_def)
qed

lemma percent_nonneg:
  assumes "0 < t"
  shows "\<exists>c. percent n (Cnt t) = Num c \<and> 0 \<le> c"
  using assms by simp

lemma predictByMarkov_warm:
  assumes "inv_ai s"
  shows "\<exists>p c. predictByMarkov s = Inr p \<and> confidence p = Num c \<and> 0 \<le> c \<and>
           (move p \<noteq> None \<longleftrightarrow>
              (\<exists>row. history s \<noteq> [] \<and> obj_get (transitions s) (last (history s)) = Some row \<and>
                 sum_values row \<noteq> Cnt 0))"
proof (cases "history s = []")
  case True
  then show ?thesis by (simp add: predictByMarkov_def abstain_def)
next
  case False
  with assms have "last (history s) \<in> set (map fst (transitions s))"
    using last_in_set by (fastforce simp add: inv_ai_def)
  then obtain row where row: "obj_get (transitions s) (last (history s)) = Some row"
    using obj_get_keys by blast
  from obj_get_in_set [OF row] assms have "well_row row"
    by (auto simp add: inv_ai_def list_all_iff)
  from well_row_shape [OF this] obtain a b c
    where r: "row = [(''rock'', Cnt a), (''paper'', Cnt b), (''scissors'', Cnt c)]" by blast
  define t where "t = a + b + c"
  have sv: "sum_values row = Cnt t" unfolding r t_def by (rule sum_values_row)
  show ?thesis
  proof (cases "t = 0")
    case True
    with False row sv show ?thesis by (simp add: predictByMarkov_def abstain_def)
  next
    case nz: False
    obtain n mv where sm: "scan_max row (0, ''rock'') = (n, mv)" by (cases "scan_max row (0, ''rock'')")
    from nz have "0 < t" by simp
    from percent_nonneg [OF this, of n] obtain c' where c': "percent n (Cnt t) = Num c'" "0 \<le> c'"
      by blast
    have "predictByMarkov s = Inr \<lparr>move = Some mv, confidence = percent n (Cnt t)\<rparr>"
      using False row sv nz sm by (simp add: predictByMarkov_def Let_def)
    with c' False row sv nz show ?thesis by simp
  qed
qed

text \<open>
  In the pattern predictor the highest count is at most the total, so a zero total comes
  with a zero \<open>maxCount\<close>: the division \<open>percent\<close> models there is \<open>0 / 0\<close>.
\<close>

lemma scan_max_le_sum:
  "fst (scan_max (map (\<lambda>(m, c). (m, Cnt c)) nm) (k, b)) \<le> k + sum_list (map snd nm)"
proof (induction nm arbitrary: k b)
  case Nil
  show ?case by simp
next
  case (Cons e nm)
  obtain m c where e: "e = (m, c)" by (cases e)
  show ?case
  proof (cases "k < c")
    case True
    with e Cons.IH [of c m] show ?thesis by simp
  next
    case False
    with e Cons.IH [of k b] show ?thesis by simp
  qed
qed

lemma matchPattern_zero_total:
  assumes "sum_list (map snd nm) = 0"
  shows "fst (scan_max (map (\<lambda>(m, c). (m, Cnt c)) nm) (0, b)) = 0"
  using scan_max_le_sum [of nm 0 b] assms by simp

lemma sum_values_nat:
  "foldl count_add (Cnt k) (map snd (map (\<lambda>(m, c). (m, Cnt c)) nm)) = Cnt (k + sum_list (map snd nm))"
  by (induction nm arbitrary: k) (auto simp add: add.assoc)

lemma matchPattern_confidence:
  assumes "inv_ai s" "matchPattern s len = Some p"
  shows "\<exists>c. confidence p = Num c \<and> 0 \<le> c"
proof -
  from assms(2) obtain nm where nm: "obj_get (patterns s) (join ''-'' (slice (history s) (- int len))) = Some nm"
    by (auto simp add: matchPattern_def Let_def split: if_splits option.splits)
  then have "(join ''-'' (slice (history s) (- int len)), nm) \<in> set (patterns s)"
    by (simp add: obj_get_def map_of_SomeD)
  with assms(1) have pos: "0 < sum_list (map snd nm)"
    by (auto simp add: inv_ai_def list_all_iff)
  have sv: "sum_values (map (\<lambda>(m, c). (m, Cnt c)) nm) = Cnt (sum_list (map snd nm))"
    using sum_values_nat [of 0 nm] by (simp add: sum_values_def obj_values_def)
  obtain n mv where sm: "scan_max (map (\<lambda>(m, c). (m, Cnt c)) nm) (0, ''rock'') = (n, mv)"
    by (cases "scan_max (map (\<lambda>(m, c). (m, Cnt c)) nm) (0, ''rock'')")
  from percent_nonneg [OF pos, of n] obtain c where c: "percent n (Cnt (sum_list (map snd nm))) = Num c" "0 \<le> c"
    by blast
  from assms(2) nm sv sm have "p = \<lparr>move = Some mv, confidence = percent n (Cnt (sum_list (map snd nm)))\<rparr>"
    by (auto simp add: matchPattern_def Let_def split: if_splits)
  with c show ?thesis by simp
qed

lemma first_match_confidence:
  assumes "inv_ai s"
  shows "\<exists>c. confidence (first_match s lens) = Num c \<and> 0 \<le> c"
proof (induction lens)
  case Nil
  show ?case by (simp add: abstain_def)
next
  case (Cons len lens)
  show ?case
  proof (cases "matchPattern s len")
    case None
    with Cons.IH show ?thesis by simp
  next
    case (Some p)
    with matchPattern_confidence [OF assms Some] show ?thesis by simp
  qed
qed

lemma predictByPattern_confidence:
  assumes "inv_ai s"
  shows "\<exists>c. confidence (predictByPattern s) = Num c \<and> 0 \<le> c"
  using first_match_confidence [OF assms, of "[4, 3, 2]"]
  by (simp add: predictByPattern_def abstain_def)

lemma predictByMetaStrategy_confidence:
  "\<exists>c. confidence (predictByMetaStrategy s r) = Num c \<and> 0 \<le> c"
  by (simp add: predictByMetaStrategy_def abstain_def Let_def)


lemma combine_positive:
  assumes "inv_ai s" "0 < totalMoves s" "predictions_of s r = Inr ps"
  shows "0 < snd (best_score (combine ps) (''rock'', 0))"
proof -
  from predictByFrequency_warm [OF assms(1,2)] obtain mv c
    where f: "move (predictByFrequency s) = Some mv" "confidence (predictByFrequency s) = Num c"
      "mv \<in> set moves" "0 < c"
    by force
  from predictByMarkov_warm [OF assms(1)] obtain mk cm
    where m: "predictByMarkov s = Inr mk" "confidence mk = Num cm" "0 \<le> cm" by blast
  from predictByPattern_confidence [OF assms(1)] obtain cp
    where p: "confidence (predictByPattern s) = Num cp" "0 \<le> cp" by blast
  from predictByMetaStrategy_confidence [of s r] obtain ct
    where t: "confidence (predictByMetaStrategy s r) = Num ct" "0 \<le> ct" by blast
  from assms(3) m(1)
  have ps: "ps = [(''frequency'', predictByFrequency s), (''markov'', mk),
                  (''pattern'', predictByPattern s), (''meta'', predictByMetaStrategy s r)]"
    by (simp add: predictions_of_def)
  let ?init = "[(''rock'', Num 0), (''paper'', Num 0), (''scissors'', Num 0)]"
  have w: "obj_get weights ''markov'' = Some (4 / 10)" "obj_get weights ''pattern'' = Some (3 / 10)"
    "obj_get weights ''meta'' = Some (1 / 10)"
    by (simp_all add: weights_def obj_get_def)
  have s1: "positive_score (add_score (''frequency'', predictByFrequency s) ?init) mv"
    by (rule add_score_first_positive [OF f(1) f(3) f(2) f(4)])
  have s2: "positive_score (add_score (''markov'', mk) (add_score (''frequency'', predictByFrequency s) ?init)) mv"
    using s1 m(2,3) w(1) by (rule add_score_keeps_positive) simp
  have s3: "positive_score (add_score (''pattern'', predictByPattern s)
       (add_score (''markov'', mk) (add_score (''frequency'', predictByFrequency s) ?init))) mv"
    using s2 p w(2) by (rule add_score_keeps_positive) simp
  have s4: "positive_score (add_score (''meta'', predictByMetaStrategy s r)
       (add_score (''pattern'', predictByPattern s)
       (add_score (''markov'', mk) (add_score (''frequency'', predictByFrequency s) ?init)))) mv"
    using s3 t w(3) by (rule add_score_keeps_positive) simp
  have "combine ps = add_score (''meta'', predictByMetaStrategy s r)
       (add_score (''pattern'', predictByPattern s)
       (add_score (''markov'', mk) (add_score (''frequency'', predictByFrequency s) ?init)))"
    unfolding ps combine_def by simp
  with s4 show ?thesis by (simp add: positive_score_best)
qed

text \<open>
  Claim C2 says that past the cold start both the frequency and the Markov predictor
  always predict. The Markov predictor abstains, by its own test of the row total, when
  the most recent move has never been followed by another: after \<open>rock\<close> four times and
  then \<open>paper\<close>, \<open>totalMoves\<close> is 5 and the row of \<open>paper\<close> is still all zero.
\<close>

theorem markov_abstains_after_five:
  "run new_ai (map Learn [''rock'', ''rock'', ''rock'', ''rock'', ''paper'']) = Inr rocks_then_paper \<and>
   totalMoves rocks_then_paper = 5 \<and>
   predictByMarkov rocks_then_paper = Inr \<lparr>move = None, confidence = Num 0\<rparr>"
  by code_simp

text \<open>
  Claim C2 as the code has it. In every state that a fresh engine reaches by calls with
  moves of the three, once \<open>totalMoves\<close> is at least 5: the frequency predictor predicts
  one of the three moves with a positive confidence; no sub-predictor throws, and the
  highest combined score is positive, so the combiner never falls back on its default;
  and the Markov predictor predicts exactly when the row of the most recent move has a
  total other than zero.
\<close>

theorem warm_predictors:
  assumes "list_all valid_call cs" "run new_ai cs = Inr s" "5 \<le> totalMoves s"
  shows "(\<exists>mv c. predictByFrequency s = \<lparr>move = Some mv, confidence = Num c\<rparr> \<and>
            mv \<in> set moves \<and> 0 < c) \<and>
         (\<exists>ps. predictions_of s r = Inr ps \<and> 0 < snd (best_score (combine ps) (''rock'', 0))) \<and>
         (\<exists>p. predictByMarkov s = Inr p \<and>
            (move p \<noteq> None \<longleftrightarrow>
               (\<exists>row. history s \<noteq> [] \<and> obj_get (transitions s) (last (history s)) = Some row \<and>
                  sum_values row \<noteq> Cnt 0)))"
proof -
  from run_inv [OF inv_ai_new assms(1)] assms(2) have inv: "inv_ai s" by auto
  from assms(3) have pos: "0 < totalMoves s" by simp
  from predictByMarkov_warm [OF inv] obtain mk
    where mk: "predictByMarkov s = Inr mk" "move mk \<noteq> None \<longleftrightarrow>
               (\<exists>row. history s \<noteq> [] \<and> obj_get (transitions s) (last (history s)) = Some row \<and>
                  sum_values row \<noteq> Cnt 0)"
    by blast
  then obtain ps where ps: "predictions_of s r = Inr ps" by (simp add: predictions_of_def)
  from combine_positive [OF inv pos ps] ps
  have "\<exists>ps. predictions_of s r = Inr ps \<and> 0 < snd (best_score (combine ps) (''rock'', 0))" by blast
  with predictByFrequency_warm [OF inv pos] mk show ?thesis by blast
qed

theorem warm_predictors_witness:
  "list_all valid_call (map Learn [''rock'', ''rock'', ''rock'', ''rock'', ''paper'']) \<and>
   run new_ai (map Learn [''rock'', ''rock'', ''rock'', ''rock'', ''paper'']) = Inr rocks_then_paper \<and>
   5 \<le> totalMoves rocks_then_paper \<and>
   predictByFrequency rocks_then_paper = \<lparr>move = Some ''rock'', confidence = Num 80\<rparr> \<and>
   (\<exists>ps. predictions_of rocks_then_paper 0 = Inr ps \<and> 0 < snd (best_score (combine ps) (''rock'', 0)))"
proof -
  have a: "list_all valid_call (map Learn [''rock'', ''rock'', ''rock'', ''rock'', ''paper''])"
    by (simp add: moves_def)
  have b: "run new_ai (map Learn [''rock'', ''rock'', ''rock'', ''rock'', ''paper'']) = Inr rocks_then_paper"
    by code_simp
  have c: "5 \<le> totalMoves rocks_then_paper" by (simp add: rocks_then_paper_def)
  have f: "predictByFrequency rocks_then_paper = \<lparr>move = Some ''rock'', confidence = Num 80\<rparr>"
    by code_simp
  from warm_predictors [OF a b c, of 0] a b c f show ?thesis by blast
qed


section \<open>The summary of patterns\<close>

lemma foldl_plus_sum_list: "foldl (+) (k :: nat) xs = k + sum_list xs"
  by (induction xs arbitrary: k) simp_all

lemma summarise_fields:
  "pattern (summarise (p, nm)) = p" "nextMoves (summarise (p, nm)) = nm"
  "total_obs (summarise (p, nm)) = sum_list (map snd nm)"
  by (simp_all add: summarise_def obj_values_def foldl_plus_sum_list)

lemma filter_take_prefix:
  "filter P (take n ys) = take (length (filter P (take n ys))) (filter P ys)"
proof -
  have "filter P ys = filter P (take n ys) @ filter P (drop n ys)"
    by (metis append_take_drop_id filter_append)
  then show ?thesis by simp
qed

lemma sorted_take_rest:
  assumes "sorted (map f ys)" "x \<in> set (drop n ys)" "y \<in> set (take n ys)"
  shows "f y \<le> f x"
proof -
  have "ys = take n ys @ drop n ys" by simp
  then have "sorted (map f (take n ys) @ map f (drop n ys))"
    using assms(1) by (metis map_append)
  with assms(2,3) show ?thesis by (auto simp add: sorted_append)
qed

text \<open>
  Claim C3 gives \<open>getPatternsSummary\<close> a limit parameter that bounds the length of the
  result. The function has no parameter: it keeps five entries, as its comment says. After
  \<open>rock, paper, rock, paper, scissors, rock\<close> the table has eight patterns, and a call
  with the argument 3 returns five entries.
\<close>

theorem getPatternsSummary_limit_ignored:
  "(case run new_ai (map Learn [''rock'', ''paper'', ''rock'', ''paper'', ''scissors'', ''rock'']) of
      Inl e \<Rightarrow> 0
    | Inr s \<Rightarrow> length (getPatternsSummary_with s [3])) = 5"
  by code_simp

text \<open>
  Claim C3 as the code has it, for every engine state. The result has at most five
  entries, as many as the table has when that is fewer; it is ordered by descending total;
  every entry is a pattern of the table with its next-move counts and their sum as total;
  among the entries of one total, the result lists the first ones of the table, in the
  table's insertion order; and every pattern left out has a total no greater than any
  total in the result.
\<close>

theorem getPatternsSummary_top5:
  "length (getPatternsSummary s) = min 5 (length (patterns s)) \<and>
   length (getPatternsSummary s) \<le> 5 \<and>
   sorted_wrt (\<lambda>a b. total_obs b \<le> total_obs a) (getPatternsSummary s) \<and>
   (\<forall>e \<in> set (getPatternsSummary s).
      (pattern e, nextMoves e) \<in> set (patterns s) \<and> total_obs e = sum_list (map snd (nextMoves e))) \<and>
   (\<forall>k. filter (\<lambda>e. total_obs e = k) (getPatternsSummary s) =
        take (length (filter (\<lambda>e. total_obs e = k) (getPatternsSummary s)))
          (filter (\<lambda>e. total_obs e = k) (map summarise (patterns s)))) \<and>
   (\<forall>x \<in> set (map summarise (patterns s)).
      x \<in> set (getPatternsSummary s) \<or> (\<forall>e \<in> set (getPatternsSummary s). total_obs x \<le> total_obs e))"
proof -
  define f where "f = (\<lambda>e :: summary. - int (total_obs e))"
  define xs where "xs = map summarise (patterns s)"
  define ys where "ys = sort_key f xs"
  have r: "getPatternsSummary s = take 5 ys"
    by (simp add: getPatternsSummary_def ys_def xs_def f_def)
  have len: "length ys = length (patterns s)" by (simp add: ys_def xs_def)
  have sorted_ys: "sorted (map f ys)" unfolding ys_def by (rule sorted_sort_key)
  have set_ys: "set ys = set xs" by (simp add: ys_def)
  have a: "length (take 5 ys) = min 5 (length (patterns s))" by (simp add: len min.commute)
  have b: "length (take 5 ys) \<le> 5" by simp
  have c: "sorted_wrt (\<lambda>a b. total_obs b \<le> total_obs a) (take 5 ys)"
  proof -
    have "sorted (map f (take 5 ys))"
      using sorted_ys by (simp add: take_map [symmetric] sorted_wrt_take)
    then show ?thesis by (simp add: sorted_map f_def)
  qed
  have d: "\<forall>e \<in> set (take 5 ys).
      (pattern e, nextMoves e) \<in> set (patterns s) \<and> total_obs e = sum_list (map snd (nextMoves e))"
  proof
    fix e assume "e \<in> set (take 5 ys)"
    then have "e \<in> set xs" using set_ys by (auto dest: in_set_takeD)
    then obtain p nm where "(p, nm) \<in> set (patterns s)" "e = summarise (p, nm)"
      by (auto simp add: xs_def)
    then show "(pattern e, nextMoves e) \<in> set (patterns s) \<and> total_obs e = sum_list (map snd (nextMoves e))"
      by (simp add: summarise_fields)
  qed
  have e: "\<forall>k. filter (\<lambda>e. total_obs e = k) (take 5 ys) =
        take (length (filter (\<lambda>e. total_obs e = k) (take 5 ys))) (filter (\<lambda>e. total_obs e = k) xs)"
  proof
    fix k
    have st: "filter (\<lambda>e. f e = - int k) ys = filter (\<lambda>e. f e = - int k) xs"
      unfolding ys_def by (rule sort_key_stable)
    have eq: "(\<lambda>e. f e = - int k) = (\<lambda>e. total_obs e = k)" by (auto simp add: f_def)
    from st have "filter (\<lambda>e. total_obs e = k) ys = filter (\<lambda>e. total_obs e = k) xs"
      unfolding eq .
    with filter_take_prefix [of "\<lambda>e. total_obs e = k" 5 ys]
    show "filter (\<lambda>e. total_obs e = k) (take 5 ys) =
        take (length (filter (\<lambda>e. total_obs e = k) (take 5 ys))) (filter (\<lambda>e. total_obs e = k) xs)"
      by simp
  qed
  have g: "\<forall>x \<in> set xs. x \<in> set (take 5 ys) \<or> (\<forall>e \<in> set (take 5 ys). total_obs x \<le> total_obs e)"
  proof
    fix x assume "x \<in> set xs"
    then have "x \<in> set (take 5 ys @ drop 5 ys)" using set_ys by simp
    then have "x \<in> set (take 5 ys) \<or> x \<in> set (drop 5 ys)" by (simp only: set_append Un_iff)
    then show "x \<in> set (take 5 ys) \<or> (\<forall>e \<in> set (take 5 ys). total_obs x \<le> total_obs e)"
    proof
      assume "x \<in> set (take 5 ys)" then show ?thesis ..
    next
      assume x: "x \<in> set (drop 5 ys)"
      have "\<forall>e \<in> set (take 5 ys). total_obs x \<le> total_obs e"
      proof
        fix e assume "e \<in> set (take 5 ys)"
        from sorted_take_rest [OF sorted_ys x this] show "total_obs x \<le> total_obs e"
          by (simp add: f_def)
      qed
      then show ?thesis ..
    qed
  qed
  from a b c d e g show ?thesis unfolding r xs_def by blast
qed


theorem getPatternsSummary_top5_witness:
  "map pattern (getPatternsSummary
      (state_after (map Learn [''rock'', ''paper'', ''rock'', ''paper'', ''scissors'', ''rock'']))) =
     [''rock-paper'', ''paper-rock'', ''rock-paper-rock'', ''paper-rock-paper'', ''rock-paper-rock-paper''] \<and>
   map total_obs (getPatternsSummary
      (state_after (map Learn [''rock'', ''paper'', ''rock'', ''paper'', ''scissors'', ''rock'']))) =
     [2, 1, 1, 1, 1] \<and>
   length (patterns (state_after (map Learn [''rock'', ''paper'', ''rock'', ''paper'', ''scissors'', ''rock'']))) = 8 \<and>
   length (getPatternsSummary
      (state_after (map Learn [''rock'', ''paper'', ''rock'', ''paper'', ''scissors'', ''rock'']))) \<le> 5 \<and>
   sorted_wrt (\<lambda>a b. total_obs b \<le> total_obs a) (getPatternsSummary
      (state_after (map Learn [''rock'', ''paper'', ''rock'', ''paper'', ''scissors'', ''rock''])))"
proof -
  let ?s = "state_after (map Learn [''rock'', ''paper'', ''rock'', ''paper'', ''scissors'', ''rock''])"
  have a: "map pattern (getPatternsSummary ?s) =
     [''rock-paper'', ''paper-rock'', ''rock-paper-rock'', ''paper-rock-paper'', ''rock-paper-rock-paper'']"
    by code_simp
  have b: "map total_obs (getPatternsSummary ?s) = [2, 1, 1, 1, 1]"
    by code_simp
  have c: "length (patterns ?s) = 8"
    by code_simp
  from getPatternsSummary_top5 [of ?s]
  have "length (getPatternsSummary ?s) \<le> 5"
    "sorted_wrt (\<lambda>a b. total_obs b \<le> total_obs a) (getPatternsSummary ?s)"
    by blast+
  with a b c show ?thesis by blast
qed

end
